theory Spec2Isabelle
  imports Complex_Main "HOL-Library.Word"
begin

section \<open>Values of the host language and of the rendering library\<close>

text \<open>
  The program is one script, \<^verbatim>\<open>script.js\<close>, over a retained-mode 3D library.
  Strings are sequences of UTF-16 code units, as in the host language; numbers are
  modelled as mathematical reals (rounding of doubles is not represented); colours are
  the hexadecimal integers the script writes (\<^verbatim>\<open>0xff0000\<close>).
\<close>

type_synonym char16 = "16 word"
type_synonym js_string = "char16 list"

definition js_literal :: "string \<Rightarrow> js_string" where
  "js_literal cs = map of_char cs"

text \<open>
  \<^verbatim>\<open>String.prototype.trim\<close> removes leading and trailing white space and line
  terminators: TAB, LF, VT, FF, CR, SP, NBSP, the space separators U+1680,
  U+2000..U+200A, U+202F, U+205F, U+3000, the separators U+2028 and U+2029, and U+FEFF.
\<close>

definition isWhiteSpace :: "char16 \<Rightarrow> bool" where
  "isWhiteSpace c \<longleftrightarrow>
     c \<in> {0x0009, 0x000A, 0x000B, 0x000C, 0x000D, 0x0020, 0x00A0, 0x1680,
          0x2028, 0x2029, 0x202F, 0x205F, 0x3000, 0xFEFF}
     \<or> (0x2000 \<le> c \<and> c \<le> 0x200A)"

definition trim :: "js_string \<Rightarrow> js_string" where
  "trim s = rev (dropWhile isWhiteSpace (rev (dropWhile isWhiteSpace s)))"

datatype vec3 = Vector3 (vx: real) (vy: real) (vz: real)

definition addScaledVector :: "vec3 \<Rightarrow> vec3 \<Rightarrow> real \<Rightarrow> vec3" where
  "addScaledVector p v k = Vector3 (vx p + vx v * k) (vy p + vy v * k) (vz p + vz v * k)"

subsection \<open>Fonts and geometries\<close>

text \<open>
  The options object handed to the text-geometry constructor (lines 57--67), without
  its \<^verbatim>\<open>font\<close> entry, which is passed separately below.
\<close>

record text_options =
  opt_size :: real
  opt_depth :: real
  curveSegments :: nat
  bevelEnabled :: bool
  bevelThickness :: real
  bevelSize :: real
  bevelOffset :: real
  bevelSegments :: nat

text \<open>
  A loaded font is opaque to the script. What the library derives from it, the vertex
  positions of the extruded outline of a text under given options, is carried by the
  font value; the script never looks inside.
\<close>

datatype font = Font (glyph_vertices: "js_string \<Rightarrow> text_options \<Rightarrow> vec3 list")

datatype geometry_data =
    TextGeometry (geometry_text: js_string) (geometry_options: text_options)
      (geometry_positions: "vec3 list")
  | TorusGeometry real real nat nat

primrec isTextGeometry :: "geometry_data \<Rightarrow> bool" where
  "isTextGeometry (TextGeometry t opts ps) = True"
| "isTextGeometry (TorusGeometry r tube radial tubular) = False"

text \<open>\<open>gdisposed\<close> records that \<^verbatim>\<open>dispose()\<close> was called on the geometry.\<close>

record geometry =
  gdata :: geometry_data
  gdisposed :: bool

text \<open>
  The library's \<^verbatim>\<open>geometry.center()\<close>: compute the axis-aligned bounding box of
  the vertex positions, take its centre (the origin for an empty box) and translate
  every vertex by the negated centre.
\<close>

definition boundingBox_center :: "vec3 list \<Rightarrow> vec3" where
  "boundingBox_center vs =
     (case vs of
        [] \<Rightarrow> Vector3 0 0 0
      | v # rest \<Rightarrow>
          Vector3
            ((fold min (map vx rest) (vx v) + fold max (map vx rest) (vx v)) * 0.5)
            ((fold min (map vy rest) (vy v) + fold max (map vy rest) (vy v)) * 0.5)
            ((fold min (map vz rest) (vz v) + fold max (map vz rest) (vz v)) * 0.5))"

definition translate :: "vec3 \<Rightarrow> vec3 list \<Rightarrow> vec3 list" where
  "translate d vs = map (\<lambda>v. Vector3 (vx v + vx d) (vy v + vy d) (vz v + vz d)) vs"

definition negate :: "vec3 \<Rightarrow> vec3" where
  "negate v = Vector3 (- vx v) (- vy v) (- vz v)"

definition center :: "vec3 list \<Rightarrow> vec3 list" where
  "center vs = translate (negate (boundingBox_center vs)) vs"

text \<open>A toy font for worked examples: one vertex per code unit of the text.\<close>

definition example_font :: font where
  "example_font = Font (\<lambda>t opts. map (\<lambda>c. Vector3 (real (unat c)) (opt_size opts) 0) t)"

subsection \<open>\<^verbatim>\<open>createTextGeometry\<close> (lines 55--70)\<close>

definition placeholder :: js_string where
  "placeholder = js_literal ''...''"

definition geometryText :: "js_string \<Rightarrow> js_string" where
  "geometryText text = (if trim text = [] then placeholder else text)"

definition textOptions :: text_options where
  "textOptions =
     \<lparr>opt_size = 0.5, opt_depth = 0.2, curveSegments = 5, bevelEnabled = True,
      bevelThickness = 0.03, bevelSize = 0.02, bevelOffset = 0, bevelSegments = 3\<rparr>"

definition createTextGeometry :: "js_string \<Rightarrow> font \<Rightarrow> geometry" where
  "createTextGeometry text fnt =
     \<lparr>gdata = TextGeometry (geometryText text) textOptions
                (center (glyph_vertices fnt (geometryText text) textOptions)),
      gdisposed = False\<rparr>"

section \<open>The application state\<close>

subsection \<open>Textures and materials\<close>

datatype color_space = NoColorSpace | SRGBColorSpace

text \<open>
  \<open>image_loaded\<close> tells whether the image behind the texture object arrives; the
  texture object itself exists as soon as the loader's \<^verbatim>\<open>load\<close> has returned.
\<close>

record texture =
  image_loaded :: bool
  colorSpace :: color_space

text \<open>
  What the environment does with the texture request of line 46. The loader's
  \<^verbatim>\<open>load\<close> hands back the texture object at once and fetches the image in the
  background; a failed fetch is reported to an error callback, and the script passes
  none. So the call returns a texture whose image arrives later, or it returns a
  texture whose image never arrives, or (the case the \<^verbatim>\<open>try\<close> of line 45 guards
  against) the call itself throws.
\<close>

datatype texture_outcome = TextureLoaded | TextureFetchFailed | TextureLoadThrew

datatype material_kind = MeshMatcapMaterial texture | MeshBasicMaterial

text \<open>
  Both material classes carry a colour, so the test \<^verbatim>\<open>if (donut.material.color)\<close>
  of line 140 always succeeds. \<open>mdisposed\<close> records a call of \<^verbatim>\<open>dispose()\<close>.
\<close>

record material =
  mkind :: material_kind
  color :: nat
  mdisposed :: bool

subsection \<open>Meshes and the scene\<close>

text \<open>
  Geometries, materials and meshes live in a store; a reference is an index into it.
  \<open>velocity\<close> is \<^verbatim>\<open>userData.velocity\<close>, absent on the text mesh.
\<close>

record mesh =
  mesh_geometry :: nat
  mesh_material :: nat
  position :: vec3
  rotation :: vec3
  scale :: vec3
  velocity :: "vec3 option"

datatype node = CameraNode | MeshNode nat

datatype js_number = Finite real | Infinity | NaN

text \<open>Division of two non-negative integers as the host language performs it.\<close>

definition js_divide :: "nat \<Rightarrow> nat \<Rightarrow> js_number" where
  "js_divide a b =
     (if b \<noteq> 0 then Finite (real a / real b) else if a = 0 then NaN else Infinity)"

text \<open>
  \<open>projection_aspect\<close> is the aspect ratio that went into the projection matrix at the
  last \<^verbatim>\<open>updateProjectionMatrix()\<close>.
\<close>

record perspective_camera =
  fov :: real
  aspect :: js_number
  near :: real
  far :: real
  projection_aspect :: js_number

record webgl_renderer =
  renderer_width :: nat
  renderer_height :: nat
  pixelRatio :: real

record viewport =
  width :: nat
  height :: nat

record browser_window =
  innerWidth :: nat
  innerHeight :: nat
  devicePixelRatio :: real

subsection \<open>Configuration and debug panel\<close>

record configuration =
  donutColor :: nat
  textColor :: nat
  textValue :: js_string

datatype controller = TextColorController | TextValueController | DonutColorController

record folder =
  folder_title :: js_string
  controllers :: "controller list"

datatype log_entry = ConsoleLog js_string | ConsoleWarn js_string | ConsoleError js_string

datatype error = TypeError

subsection \<open>The state\<close>

text \<open>
  First the module-level variables of the script (\<open>scene_children\<close> for the scene,
  \<open>gui_folders\<close> for the panel), then the store, then the part of the browser that the
  script acts on: the window, the callbacks it has registered (the resize listener,
  the pending font request, the requested animation frame), the number of frames
  drawn, the console and the alerts shown.
\<close>

record app =
  scene_children :: "node list"
  camera :: perspective_camera
  renderer :: webgl_renderer
  loadedFont :: "font option"
  textMesh :: "nat option"
  donutMeshes :: "nat list"
  config :: configuration
  gui_folders :: "folder list"
  matcapTexture :: "texture option"
  sizes :: viewport
  geometries :: "geometry list"
  materials :: "material list"
  meshes :: "mesh list"
  window :: browser_window
  resize_listener :: bool
  font_request_pending :: bool
  frame_requested :: bool
  rendered_frames :: nat
  console :: "log_entry list"
  alerts :: "js_string list"

section \<open>The content builder, \<^verbatim>\<open>setupSceneContent\<close> (lines 75--145)\<close>

text \<open>
  The conditional of lines 79--81 and 96--98: a matcap material when the texture
  variable is not null, a basic material otherwise.
\<close>

definition new_material :: "texture option \<Rightarrow> nat \<Rightarrow> material" where
  "new_material tex c =
     (case tex of
        Some t \<Rightarrow> \<lparr>mkind = MeshMatcapMaterial t, color = c, mdisposed = False\<rparr>
      | None \<Rightarrow> \<lparr>mkind = MeshBasicMaterial, color = c, mdisposed = False\<rparr>)"

text \<open>A mesh as its constructor leaves it: at the origin, not rotated, not scaled, no user data.\<close>

definition new_mesh :: "nat \<Rightarrow> nat \<Rightarrow> mesh" where
  "new_mesh g m =
     \<lparr>mesh_geometry = g, mesh_material = m, position = Vector3 0 0 0,
      rotation = Vector3 0 0 0, scale = Vector3 1 1 1, velocity = None\<rparr>"

definition donutColors :: "nat list" where
  "donutColors = [0xff0000, 0xffa500, 0xffff00, 0x00ff00, 0x00ffff, 0x0000ff, 0x8a2be2]"

text \<open>
  The body of the loop of lines 95--117 for index \<open>i\<close>. \<open>random\<close> is the sequence of
  values that \<^verbatim>\<open>Math.random()\<close> returns during this build; the body draws nine.
\<close>

definition make_donut :: "nat \<Rightarrow> nat \<Rightarrow> (nat \<Rightarrow> real) \<Rightarrow> nat \<Rightarrow> mesh" where
  "make_donut donutGeometry donutMaterial random i =
     (let r = (\<lambda>k. random (9 * i + k));
          scl = r 5 * 0.7 + 0.3
      in (new_mesh donutGeometry donutMaterial)
           \<lparr>position := Vector3 ((r 0 - 0.5) * 15) ((r 1 - 0.5) * 15) ((r 2 - 0.5) * 15),
            rotation := Vector3 (r 3 * pi) (r 4 * pi) 0,
            scale := Vector3 scl scl scl,
            velocity := Some (Vector3 ((r 6 - 0.5) * 0.02) ((r 7 - 0.5) * 0.02)
                                ((r 8 - 0.5) * 0.02))\<rparr>)"

definition add_donut :: "nat \<Rightarrow> (nat \<Rightarrow> real) \<Rightarrow> nat \<Rightarrow> app \<Rightarrow> app" where
  "add_donut donutGeometry random i s =
     (let donutMaterial = length (materials s);
          s1 = s\<lparr>materials := materials s @
                 [new_material (matcapTexture s) (donutColors ! (i mod length donutColors))]\<rparr>;
          donut = length (meshes s1);
          s2 = s1\<lparr>meshes := meshes s1 @ [make_donut donutGeometry donutMaterial random i]\<rparr>;
          s3 = s2\<lparr>donutMeshes := donutMeshes s2 @ [donut]\<rparr>
      in s3\<lparr>scene_children := scene_children s3 @ [MeshNode donut]\<rparr>)"

text \<open>
  \<^verbatim>\<open>gui.folders.forEach(folder => folder.destroy())\<close> of line 120: \<^verbatim>\<open>destroy\<close>
  splices the folder out of the very list that \<^verbatim>\<open>forEach\<close> walks by index, over
  the length the list had at the start.
\<close>

fun destroy_folders :: "nat \<Rightarrow> nat \<Rightarrow> folder list \<Rightarrow> folder list" where
  "destroy_folders k 0 fs = fs"
| "destroy_folders k (Suc n) fs =
     (if k < length fs then destroy_folders (Suc k) n (take k fs @ drop (Suc k) fs)
      else destroy_folders (Suc k) n fs)"

definition textFolder :: folder where
  "textFolder =
     \<lparr>folder_title = js_literal ''Text'',
      controllers = [TextColorController, TextValueController]\<rparr>"

definition donutFolder :: folder where
  "donutFolder =
     \<lparr>folder_title = js_literal ''Donuts'', controllers = [DonutColorController]\<rparr>"

text \<open>
  Every object handed to \<^verbatim>\<open>scene.add\<close> has just been constructed and has no
  parent, so it is appended to the children of the scene; \<^verbatim>\<open>scene.remove\<close> takes
  an object out of the children if it is among them. A new object gets the next free
  index of the store.
\<close>

definition setupSceneContent :: "font \<Rightarrow> (nat \<Rightarrow> real) \<Rightarrow> app \<Rightarrow> app" where
  "setupSceneContent fnt random s =
     (let s1 = s\<lparr>loadedFont := Some fnt\<rparr>;
          textMaterial = length (materials s1);
          s2 = s1\<lparr>materials := materials s1 @
                  [new_material (matcapTexture s1) (textColor (config s1))]\<rparr>;
          initialTextGeometry = length (geometries s2);
          s3 = s2\<lparr>geometries := geometries s2 @
                  [createTextGeometry (textValue (config s2)) fnt]\<rparr>;
          tm = length (meshes s3);
          s4 = s3\<lparr>meshes := meshes s3 @ [new_mesh initialTextGeometry textMaterial],
                  textMesh := Some tm,
                  scene_children := scene_children s3 @ [MeshNode tm]\<rparr>;
          donutGeometry = length (geometries s4);
          s5 = s4\<lparr>geometries := geometries s4 @
                  [\<lparr>gdata = TorusGeometry 0.3 0.2 16 32, gdisposed = False\<rparr>]\<rparr>;
          s6 = s5\<lparr>scene_children :=
                  fold (\<lambda>donut cs. remove1 (MeshNode donut) cs) (donutMeshes s5)
                    (scene_children s5)\<rparr>;
          s7 = s6\<lparr>donutMeshes := []\<rparr>;
          s8 = fold (add_donut donutGeometry random) [0..<100] s7;
          s9 = s8\<lparr>gui_folders :=
                  destroy_folders 0 (length (gui_folders s8)) (gui_folders s8)\<rparr>
      in s9\<lparr>gui_folders := gui_folders s9 @ [textFolder, donutFolder]\<rparr>)"

subsection \<open>The change handlers installed on the panel (lines 124--144)\<close>

definition onTextColorChange :: "nat \<Rightarrow> app \<Rightarrow> error + app" where
  "onTextColorChange newColor s =
     (case textMesh s of
        None \<Rightarrow> Inl TypeError
      | Some tm \<Rightarrow>
          let k = mesh_material (meshes s ! tm)
          in Inr (s\<lparr>materials := (materials s)[k := (materials s ! k)\<lparr>color := newColor\<rparr>]\<rparr>))"

definition onTextValueChange :: "js_string \<Rightarrow> app \<Rightarrow> app" where
  "onTextValueChange newText s =
     (case (textMesh s, loadedFont s) of
        (Some tm, Some fnt) \<Rightarrow>
          let old = mesh_geometry (meshes s ! tm);
              s1 = s\<lparr>geometries := (geometries s)[old := (geometries s ! old)\<lparr>gdisposed := True\<rparr>]\<rparr>;
              new = length (geometries s1);
              s2 = s1\<lparr>geometries := geometries s1 @ [createTextGeometry newText fnt]\<rparr>
          in s2\<lparr>meshes := (meshes s2)[tm := (meshes s2 ! tm)\<lparr>mesh_geometry := new\<rparr>]\<rparr>
      | _ \<Rightarrow> s)"

definition onDonutColorChange :: "nat \<Rightarrow> app \<Rightarrow> app" where
  "onDonutColorChange newColor s =
     s\<lparr>materials :=
         fold (\<lambda>donut ms.
                 let k = mesh_material (meshes s ! donut)
                 in ms[k := (ms ! k)\<lparr>color := newColor\<rparr>])
           (donutMeshes s) (materials s)\<rparr>"

section \<open>Resizing, \<^verbatim>\<open>handleResize\<close> (lines 155--166)\<close>

definition handleResize :: "app \<Rightarrow> app" where
  "handleResize s =
     (let s1 = s\<lparr>sizes := \<lparr>width = innerWidth (window s), height = innerHeight (window s)\<rparr>\<rparr>;
          s2 = s1\<lparr>camera := (camera s1)\<lparr>aspect := js_divide (width (sizes s1)) (height (sizes s1))\<rparr>\<rparr>;
          s3 = s2\<lparr>camera := (camera s2)\<lparr>projection_aspect := aspect (camera s2)\<rparr>\<rparr>;
          s4 = s3\<lparr>renderer := (renderer s3)\<lparr>renderer_width := width (sizes s3),
                                                renderer_height := height (sizes s3)\<rparr>\<rparr>
      in s4\<lparr>renderer := (renderer s4)\<lparr>pixelRatio := min (devicePixelRatio (window s4)) 2\<rparr>\<rparr>)"

section \<open>The render loop, \<^verbatim>\<open>animate\<close> (lines 197--223)\<close>

definition boundary :: real where
  "boundary = 10"

text \<open>One of the three lines 213--215, for one axis.\<close>

definition bounce :: "real \<Rightarrow> real \<Rightarrow> real" where
  "bounce p v = (if \<bar>p\<bar> > boundary then v * (- 1) else v)"

definition animate_donut :: "real \<Rightarrow> mesh \<Rightarrow> error + mesh" where
  "animate_donut deltaTime donut =
     (let r = rotation donut;
          d1 = donut\<lparr>rotation :=
                 Vector3 (vx r + deltaTime * 0.5) (vy r + deltaTime * 0.5) (vz r)\<rparr>
      in case velocity d1 of
           None \<Rightarrow> Inl TypeError
         | Some v \<Rightarrow>
             let p = addScaledVector (position d1) v (deltaTime * 60)
             in Inr (d1\<lparr>position := p,
                        velocity := Some (Vector3 (bounce (vx p) (vx v)) (bounce (vy p) (vy v))
                                            (bounce (vz p) (vz v)))\<rparr>))"

fun animate_donuts :: "real \<Rightarrow> nat list \<Rightarrow> mesh list \<Rightarrow> error + mesh list" where
  "animate_donuts deltaTime [] ms = Inr ms"
| "animate_donuts deltaTime (d # ds) ms =
     (case animate_donut deltaTime (ms ! d) of
        Inl e \<Rightarrow> Inl e
      | Inr m \<Rightarrow> animate_donuts deltaTime ds (ms[d := m]))"

text \<open>
  The orbit controls only move the camera, whose transform is not part of the state.
  A tick that gets through the donuts draws one frame and asks for the next.
\<close>

definition animate :: "real \<Rightarrow> app \<Rightarrow> error + app" where
  "animate deltaTime s =
     (case animate_donuts deltaTime (donutMeshes s) (meshes s) of
        Inl e \<Rightarrow> Inl e
      | Inr ms \<Rightarrow>
          Inr (s\<lparr>meshes := ms, rendered_frames := rendered_frames s + 1,
                 frame_requested := True\<rparr>))"

section \<open>Start-up (lines 13--50, 150--195, 229--257)\<close>

definition load_matcapTexture :: "texture_outcome \<Rightarrow> app \<Rightarrow> app" where
  "load_matcapTexture outcome s =
     (case outcome of
        TextureLoaded \<Rightarrow>
          s\<lparr>matcapTexture := Some \<lparr>image_loaded = True, colorSpace = SRGBColorSpace\<rparr>\<rparr>
      | TextureFetchFailed \<Rightarrow>
          s\<lparr>matcapTexture := Some \<lparr>image_loaded = False, colorSpace = SRGBColorSpace\<rparr>\<rparr>
      | TextureLoadThrew \<Rightarrow>
          s\<lparr>console := console s @
              [ConsoleWarn (js_literal ''Could not load matcap texture. Using basic materials.'')]\<rparr>)"

text \<open>The module-level statements up to the call of \<^verbatim>\<open>init\<close>.\<close>

definition script_body :: "texture_outcome \<Rightarrow> browser_window \<Rightarrow> app" where
  "script_body outcome win =
     (let s0 = \<lparr>scene_children = [], 
                camera = \<lparr>fov = 75, aspect = js_divide (innerWidth win) (innerHeight win),
                          near = 0.1, far = 100,
                          projection_aspect = js_divide (innerWidth win) (innerHeight win)\<rparr>,
                renderer = \<lparr>renderer_width = innerWidth win, renderer_height = innerHeight win,
                            pixelRatio = min (devicePixelRatio win) 2\<rparr>,
                loadedFont = None, textMesh = None, donutMeshes = [],
                config = \<lparr>donutColor = 0xff0000, textColor = 0xffffff,
                          textValue = js_literal ''Hello :)''\<rparr>,
                gui_folders = [], matcapTexture = None,
                sizes = \<lparr>width = innerWidth win, height = innerHeight win\<rparr>,
                geometries = [], materials = [], meshes = [], window = win,
                resize_listener = False, font_request_pending = False,
                frame_requested = False, rendered_frames = 0, console = [], alerts = []\<rparr>;
          s1 = load_matcapTexture outcome s0
      in s1\<lparr>scene_children := scene_children s1 @ [CameraNode]\<rparr>)"

definition init :: "app \<Rightarrow> app" where
  "init s =
     s\<lparr>console := console s @ [ConsoleLog (js_literal ''Initializing...'')],
       resize_listener := True, font_request_pending := True\<rparr>"

definition boot :: "texture_outcome \<Rightarrow> browser_window \<Rightarrow> app" where
  "boot outcome win = init (script_body outcome win)"

text \<open>The two callbacks handed to the font loader (lines 240--252).\<close>

definition onFontLoaded :: "font \<Rightarrow> (nat \<Rightarrow> real) \<Rightarrow> real \<Rightarrow> app \<Rightarrow> error + app" where
  "onFontLoaded fnt random deltaTime s =
     (let s1 = s\<lparr>console := console s @ [ConsoleLog (js_literal ''Font loaded.'')]\<rparr>;
          s2 = setupSceneContent fnt random s1;
          s3 = handleResize s2
      in animate deltaTime s3)"

definition onFontError :: "app \<Rightarrow> app" where
  "onFontError s =
     s\<lparr>console := console s @ [ConsoleError (js_literal ''Font loading error:'')],
       alerts := alerts s @
         [js_literal ''Failed to load font. Check console and file path (public/fonts).'']\<rparr>"

subsection \<open>Events\<close>

text \<open>
  After start-up the script only runs when the environment calls one of the callbacks
  it registered: the resize listener, one of the two font callbacks (once), a change
  handler of a panel control, or the frame callback. An event with no registered
  callback leaves the state alone.

  \<open>Resize\<close> carries the new inner width, inner height and device pixel ratio of the
  window. \<open>FontLoaded\<close> carries the font, the values that \<^verbatim>\<open>Math.random()\<close> returns
  during the build and the value of \<^verbatim>\<open>clock.getDelta()\<close> in the first tick. A change
  event of a panel control carries the new value; the panel writes it into the
  configuration object and then calls the change handler. \<open>AnimationFrame\<close> carries
  the value of \<^verbatim>\<open>clock.getDelta()\<close> for that tick.
\<close>

datatype event =
    Resize nat nat real
  | FontLoaded font "nat \<Rightarrow> real" real
  | FontError
  | TextColorChanged nat
  | TextValueChanged js_string
  | DonutColorChanged nat
  | AnimationFrame real

definition has_controller :: "controller \<Rightarrow> app \<Rightarrow> bool" where
  "has_controller c s \<longleftrightarrow> c \<in> set (concat (map controllers (gui_folders s)))"

fun step :: "event \<Rightarrow> app \<Rightarrow> error + app" where
  "step (Resize w h dpr) s =
     (let s1 = s\<lparr>window := \<lparr>innerWidth = w, innerHeight = h, devicePixelRatio = dpr\<rparr>\<rparr>
      in Inr (if resize_listener s1 then handleResize s1 else s1))"
| "step (FontLoaded fnt random deltaTime) s =
     (if font_request_pending s
      then onFontLoaded fnt random deltaTime (s\<lparr>font_request_pending := False\<rparr>)
      else Inr s)"
| "step FontError s =
     (if font_request_pending s then Inr (onFontError (s\<lparr>font_request_pending := False\<rparr>))
      else Inr s)"
| "step (TextColorChanged c) s =
     (if has_controller TextColorController s
      then onTextColorChange c (s\<lparr>config := (config s)\<lparr>textColor := c\<rparr>\<rparr>)
      else Inr s)"
| "step (TextValueChanged t) s =
     (if has_controller TextValueController s
      then Inr (onTextValueChange t (s\<lparr>config := (config s)\<lparr>textValue := t\<rparr>\<rparr>))
      else Inr s)"
| "step (DonutColorChanged c) s =
     (if has_controller DonutColorController s
      then Inr (onDonutColorChange c (s\<lparr>config := (config s)\<lparr>donutColor := c\<rparr>\<rparr>))
      else Inr s)"
| "step (AnimationFrame deltaTime) s =
     (if frame_requested s then animate deltaTime (s\<lparr>frame_requested := False\<rparr>)
      else Inr s)"

fun run :: "event list \<Rightarrow> app \<Rightarrow> error + app" where
  "run [] s = Inr s"
| "run (e # es) s = (case step e s of Inl err \<Rightarrow> Inl err | Inr s' \<Rightarrow> run es s')"

section \<open>Well-formed states\<close>

text \<open>
  References of the host language never dangle and every constructor call yields a new
  object. In the store this reads: every reference is an index in range, every mesh has
  a material of its own, the scene lists a node once, the donut list names meshes that
  carry a velocity, and the text mesh (present as soon as the panel has controls) is
  not one of the donuts.
\<close>

definition refs_valid :: "app \<Rightarrow> bool" where
  "refs_valid s \<longleftrightarrow>
     list_all (\<lambda>m. mesh_geometry m < length (geometries s) \<and>
                   mesh_material m < length (materials s)) (meshes s)"

primrec node_valid :: "nat \<Rightarrow> node \<Rightarrow> bool" where
  "node_valid n CameraNode = True"
| "node_valid n (MeshNode m) = (m < n)"

definition scene_valid :: "app \<Rightarrow> bool" where
  "scene_valid s \<longleftrightarrow>
     distinct (scene_children s) \<and> list_all (node_valid (length (meshes s))) (scene_children s)"

definition donuts_valid :: "app \<Rightarrow> bool" where
  "donuts_valid s \<longleftrightarrow>
     distinct (donutMeshes s) \<and>
     list_all (\<lambda>d. d < length (meshes s) \<and> velocity (meshes s ! d) \<noteq> None) (donutMeshes s)"

definition text_valid :: "app \<Rightarrow> bool" where
  "text_valid s \<longleftrightarrow>
     (case textMesh s of
        None \<Rightarrow> gui_folders s = []
      | Some tm \<Rightarrow> tm < length (meshes s) \<and> tm \<notin> set (donutMeshes s))"

definition materials_unshared :: "app \<Rightarrow> bool" where
  "materials_unshared s \<longleftrightarrow> distinct (map mesh_material (meshes s))"

definition wellformed :: "app \<Rightarrow> bool" where
  "wellformed s \<longleftrightarrow>
     refs_valid s \<and> scene_valid s \<and> donuts_valid s \<and> text_valid s \<and> materials_unshared s"



text \<open>The meshes in the scene, and those among them that show a text.\<close>

primrec node_meshes :: "node \<Rightarrow> nat list" where
  "node_meshes CameraNode = []"
| "node_meshes (MeshNode m) = [m]"

definition scene_meshes :: "app \<Rightarrow> nat list" where
  "scene_meshes s = concat (map node_meshes (scene_children s))"

definition is_text_mesh :: "app \<Rightarrow> nat \<Rightarrow> bool" where
  "is_text_mesh s m \<longleftrightarrow> isTextGeometry (gdata (geometries s ! mesh_geometry (meshes s ! m)))"

definition text_objects :: "app \<Rightarrow> nat list" where
  "text_objects s = filter (is_text_mesh s) (scene_meshes s)"

section \<open>Runs of the script: auxiliary notions\<close>

text \<open>The event that answers the font request with a font, and so runs the content builder.\<close>

primrec rebuilds :: "event \<Rightarrow> bool" where
  "rebuilds (Resize w h dpr) = False"
| "rebuilds (FontLoaded fnt random deltaTime) = True"
| "rebuilds FontError = False"
| "rebuilds (TextColorChanged c) = False"
| "rebuilds (TextValueChanged t) = False"
| "rebuilds (DonutColorChanged c) = False"
| "rebuilds (AnimationFrame deltaTime) = False"

text \<open>The two events by which the font loader answers the request of \<^verbatim>\<open>init\<close>.\<close>

primrec font_callback :: "event \<Rightarrow> bool" where
  "font_callback (Resize w h dpr) = False"
| "font_callback (FontLoaded fnt random deltaTime) = True"
| "font_callback FontError = True"
| "font_callback (TextColorChanged c) = False"
| "font_callback (TextValueChanged t) = False"
| "font_callback (DonutColorChanged c) = False"
| "font_callback (AnimationFrame deltaTime) = False"

text \<open>
  What holds in every state of a run of the script: before the font has arrived there
  is no content; once the text mesh exists the font request has been answered, the
  panel has its three controls, there are 100 donuts, and the text mesh is the one
  text object of the scene.
\<close>

definition program_invariant :: "app \<Rightarrow> bool" where
  "program_invariant s \<longleftrightarrow>
     wellformed s \<and> resize_listener s \<and>
     (case textMesh s of
        None \<Rightarrow> meshes s = [] \<and> donutMeshes s = [] \<and> scene_children s = [CameraNode]
      | Some tm \<Rightarrow>
          \<not> font_request_pending s \<and> loadedFont s \<noteq> None \<and> length (donutMeshes s) = 100 \<and>
          has_controller TextColorController s \<and> has_controller TextValueController s \<and>
          has_controller DonutColorController s \<and> text_objects s = [tm])"

text \<open>No scene content and no render loop.\<close>

definition no_content :: "app \<Rightarrow> bool" where
  "no_content s \<longleftrightarrow>
     textMesh s = None \<and> donutMeshes s = [] \<and> meshes s = [] \<and> geometries s = [] \<and>
     materials s = [] \<and> scene_children s = [CameraNode] \<and> gui_folders s = [] \<and>
     \<not> frame_requested s \<and> rendered_frames s = 0"

definition font_alert :: js_string where
  "font_alert = js_literal ''Failed to load font. Check console and file path (public/fonts).''"

section \<open>Examples\<close>

text \<open>A window, and a random source that always returns one half.\<close>

definition example_window :: browser_window where
  "example_window = \<lparr>innerWidth = 800, innerHeight = 600, devicePixelRatio = 1\<rparr>"

definition example_random :: "nat \<Rightarrow> real" where
  "example_random k = 1 / 2"

text \<open>
  A state with one donut that is outside the boundary on the x axis and moves outwards.
\<close>

definition example_donut :: mesh where
  "example_donut =
     (new_mesh 0 0)\<lparr>position := Vector3 10.5 0 (- 3), velocity := Some (Vector3 0.25 0.5 (- 0.5))\<rparr>"

definition example_state :: app where
  "example_state =
     (boot TextureLoaded example_window)
       \<lparr>materials := [new_material None 0xff0000],
        geometries := [\<lparr>gdata = TorusGeometry 0.3 0.2 16 32, gdisposed = False\<rparr>],
        meshes := [example_donut], donutMeshes := [0]\<rparr>"



section \<open>Text geometry\<close>

lemma dropWhile_all_Nil:
  assumes "\<forall>x\<in>set (dropWhile P xs). P x"
  shows "dropWhile P xs = []"
proof (rule ccontr)
  assume ne: "dropWhile P xs \<noteq> []"
  then have "\<not> P (hd (dropWhile P xs))"
    by (rule hd_dropWhile)
  moreover from ne have "hd (dropWhile P xs) \<in> set (dropWhile P xs)"
    by simp
  ultimately show False
    using assms by blast
qed

lemma trim_empty_iff: "trim s = [] \<longleftrightarrow> (\<forall>c\<in>set s. isWhiteSpace c)"
proof
  assume "trim s = []"
  then have "\<forall>x\<in>set (dropWhile isWhiteSpace s). isWhiteSpace x"
    by (simp add: trim_def)
  then have "dropWhile isWhiteSpace s = []"
    by (rule dropWhile_all_Nil)
  then show "\<forall>c\<in>set s. isWhiteSpace c"
    by simp
next
  assume "\<forall>c\<in>set s. isWhiteSpace c"
  then have d: "dropWhile isWhiteSpace s = []"
    by simp
  show "trim s = []"
    unfolding trim_def d by simp
qed

lemma fold_min_shift:
  "fold min (map (\<lambda>v. f v + d) xs) (a + d) = fold min (map f xs) a + (d::real)"
proof (induction xs arbitrary: a)
  case Nil
  show ?case by simp
next
  case (Cons x xs)
  have "min (f x + d) (a + d) = min (f x) a + d"
    by (simp add: min_def)
  then show ?case
    using Cons.IH [of "min (f x) a"] by simp
qed

lemma fold_max_shift:
  "fold max (map (\<lambda>v. f v + d) xs) (a + d) = fold max (map f xs) a + (d::real)"
proof (induction xs arbitrary: a)
  case Nil
  show ?case by simp
next
  case (Cons x xs)
  have "max (f x + d) (a + d) = max (f x) a + d"
    by (simp add: max_def)
  then show ?case
    using Cons.IH [of "max (f x) a"] by simp
qed

lemma boundingBox_center_translate:
  assumes "vs \<noteq> []"
  shows "boundingBox_center (translate d vs) =
     Vector3 (vx (boundingBox_center vs) + vx d) (vy (boundingBox_center vs) + vy d)
       (vz (boundingBox_center vs) + vz d)"
proof -
  from assms obtain v rest where vs: "vs = v # rest"
    by (cases vs) auto
  have mx: "map vx (translate d rest) = map (\<lambda>v. vx v + vx d) rest"
    and my: "map vy (translate d rest) = map (\<lambda>v. vy v + vy d) rest"
    and mz: "map vz (translate d rest) = map (\<lambda>v. vz v + vz d) rest"
    by (simp_all add: translate_def)
  have tr: "translate d (v # rest) =
      Vector3 (vx v + vx d) (vy v + vy d) (vz v + vz d) # translate d rest"
    by (simp add: translate_def)
  have "boundingBox_center (translate d (v # rest)) =
      Vector3
        ((fold min (map vx rest) (vx v) + vx d + (fold max (map vx rest) (vx v) + vx d)) * 0.5)
        ((fold min (map vy rest) (vy v) + vy d + (fold max (map vy rest) (vy v) + vy d)) * 0.5)
        ((fold min (map vz rest) (vz v) + vz d + (fold max (map vz rest) (vz v) + vz d)) * 0.5)"
    unfolding tr boundingBox_center_def list.case vec3.sel mx my mz
      fold_min_shift fold_max_shift ..
  also have "\<dots> = Vector3 (vx (boundingBox_center (v # rest)) + vx d)
      (vy (boundingBox_center (v # rest)) + vy d) (vz (boundingBox_center (v # rest)) + vz d)"
    by (simp add: boundingBox_center_def algebra_simps)
  finally show ?thesis
    by (simp add: vs)
qed

lemma boundingBox_center_center: "boundingBox_center (center vs) = Vector3 0 0 0"
proof (cases "vs = []")
  case True
  then show ?thesis
    by (simp add: center_def translate_def boundingBox_center_def)
next
  case False
  then show ?thesis
    by (simp add: center_def boundingBox_center_translate negate_def)
qed

section \<open>The content builder in closed form\<close>


lemma fold_add_donut:
  "fold (add_donut g r) [0..<n] s =
     s\<lparr>materials := materials s @
          map (\<lambda>i. new_material (matcapTexture s) (donutColors ! (i mod length donutColors))) [0..<n],
       meshes := meshes s @ map (\<lambda>i. make_donut g (length (materials s) + i) r i) [0..<n],
       donutMeshes := donutMeshes s @ map (\<lambda>i. length (meshes s) + i) [0..<n],
       scene_children := scene_children s @ map (\<lambda>i. MeshNode (length (meshes s) + i)) [0..<n]\<rparr>"
proof (induction n)
  case 0
  show ?case by simp
next
  case (Suc n)
  have "fold (add_donut g r) [0..<Suc n] s = add_donut g r n (fold (add_donut g r) [0..<n] s)"
    by simp
  show ?case
    unfolding \<open>fold (add_donut g r) [0..<Suc n] s = add_donut g r n (fold (add_donut g r) [0..<n] s)\<close> Suc.IH
    by (simp add: add_donut_def Let_def)
qed

lemma setupSceneContent_eq:
  "setupSceneContent fnt r s =
     s\<lparr>loadedFont := Some fnt,
       materials := materials s @
          new_material (matcapTexture s) (textColor (config s)) #
          map (\<lambda>i. new_material (matcapTexture s) (donutColors ! (i mod length donutColors))) [0..<100],
       geometries := geometries s @
          [createTextGeometry (textValue (config s)) fnt,
           \<lparr>gdata = TorusGeometry 0.3 0.2 16 32, gdisposed = False\<rparr>],
       meshes := meshes s @
          new_mesh (length (geometries s)) (length (materials s)) #
          map (\<lambda>i. make_donut (Suc (length (geometries s))) (Suc (length (materials s)) + i) r i) [0..<100],
       textMesh := Some (length (meshes s)),
       donutMeshes := map (\<lambda>i. Suc (length (meshes s)) + i) [0..<100],
       scene_children :=
          fold (\<lambda>donut cs. remove1 (MeshNode donut) cs) (donutMeshes s)
            (scene_children s @ [MeshNode (length (meshes s))]) @
          map (\<lambda>i. MeshNode (Suc (length (meshes s)) + i)) [0..<100],
       gui_folders := destroy_folders 0 (length (gui_folders s)) (gui_folders s) @
          [textFolder, donutFolder]\<rparr>"
  unfolding setupSceneContent_def Let_def fold_add_donut
  by simp

lemma setupSceneContent_donutMeshes:
  "donutMeshes (setupSceneContent fnt r s) = map (\<lambda>i. Suc (length (meshes s)) + i) [0..<100]"
  by (simp add: setupSceneContent_eq)

lemma handleResize_frame:
  "donutMeshes (handleResize s) = donutMeshes s"
  "meshes (handleResize s) = meshes s"
  "materials (handleResize s) = materials s"
  "geometries (handleResize s) = geometries s"
  "textMesh (handleResize s) = textMesh s"
  "scene_children (handleResize s) = scene_children s"
  "gui_folders (handleResize s) = gui_folders s"
  "loadedFont (handleResize s) = loadedFont s"
  "frame_requested (handleResize s) = frame_requested s"
  "rendered_frames (handleResize s) = rendered_frames s"
  "alerts (handleResize s) = alerts s"
  "font_request_pending (handleResize s) = font_request_pending s"
  "resize_listener (handleResize s) = resize_listener s"
  "matcapTexture (handleResize s) = matcapTexture s"
  "window (handleResize s) = window s"
  by (simp_all add: handleResize_def Let_def)

section \<open>Resizing\<close>

text \<open>
  C9. On a resize event the camera's aspect ratio becomes the new width divided by the
  new height (and goes into the projection matrix), the renderer takes the new size,
  and its pixel ratio is the device pixel ratio capped at 2.
\<close>

theorem handleResize_recomputes:
  assumes "resize_listener s"
  shows "\<exists>s'. step (Resize w h dpr) s = Inr s'
    \<and> sizes s' = \<lparr>width = w, height = h\<rparr>
    \<and> aspect (camera s') = js_divide w h
    \<and> (0 < h \<longrightarrow> aspect (camera s') = Finite (real w / real h))
    \<and> projection_aspect (camera s') = aspect (camera s')
    \<and> renderer_width (renderer s') = w \<and> renderer_height (renderer s') = h
    \<and> pixelRatio (renderer s') = min dpr 2
    \<and> pixelRatio (renderer s') \<le> 2"
  using assms by (simp add: handleResize_def Let_def js_divide_def)

theorem handleResize_recomputes_witness:
  "\<exists>s'. step (Resize 1920 1080 3) (boot TextureLoaded example_window) = Inr s'
    \<and> aspect (camera s') = Finite (16 / 9)
    \<and> renderer_width (renderer s') = 1920 \<and> renderer_height (renderer s') = 1080
    \<and> pixelRatio (renderer s') = 2"
proof -
  have l: "resize_listener (boot TextureLoaded example_window)"
    by (simp add: boot_def init_def)
  show ?thesis
    using handleResize_recomputes [OF l, of 1920 1080 3] by auto
qed

section \<open>The render loop\<close>

lemma animate_donut_Some:
  assumes "velocity m = Some v"
  shows "animate_donut dt m =
    Inr (m\<lparr>rotation := Vector3 (vx (rotation m) + dt * 0.5) (vy (rotation m) + dt * 0.5)
                          (vz (rotation m)),
           position := addScaledVector (position m) v (dt * 60),
           velocity := Some (Vector3
             (bounce (vx (addScaledVector (position m) v (dt * 60))) (vx v))
             (bounce (vy (addScaledVector (position m) v (dt * 60))) (vy v))
             (bounce (vz (addScaledVector (position m) v (dt * 60))) (vz v)))\<rparr>)"
  using assms by (simp add: animate_donut_def Let_def)

lemma animate_donut_keeps:
  assumes "animate_donut dt m = Inr m'"
  shows "mesh_geometry m' = mesh_geometry m" "mesh_material m' = mesh_material m"
    "scale m' = scale m" "velocity m' \<noteq> None"
  using assms by (auto simp: animate_donut_def Let_def split: option.splits)

lemma animate_donuts_Inr:
  assumes "distinct ds" "\<forall>d\<in>set ds. d < length ms \<and> velocity (ms ! d) \<noteq> None"
  shows "\<exists>ms'. animate_donuts dt ds ms = Inr ms' \<and> length ms' = length ms
    \<and> (\<forall>j. j \<notin> set ds \<longrightarrow> ms' ! j = ms ! j)
    \<and> (\<forall>d\<in>set ds. animate_donut dt (ms ! d) = Inr (ms' ! d))"
  using assms
proof (induction ds arbitrary: ms)
  case Nil
  show ?case by simp
next
  case (Cons d ds)
  from Cons.prems obtain v where v: "velocity (ms ! d) = Some v" and d: "d < length ms"
    by auto
  obtain m where m: "animate_donut dt (ms ! d) = Inr m"
    using animate_donut_Some [OF v] by blast
  have dn: "d \<notin> set ds" and dist: "distinct ds"
    using Cons.prems(1) by simp_all
  have pre: "\<forall>e\<in>set ds. e < length (ms[d := m]) \<and> velocity (ms[d := m] ! e) \<noteq> None"
  proof
    fix e assume e: "e \<in> set ds"
    with dn have "e \<noteq> d" by blast
    with e Cons.prems(2) show "e < length (ms[d := m]) \<and> velocity (ms[d := m] ! e) \<noteq> None"
      by simp
  qed
  from Cons.IH [OF dist pre] obtain ms' where
    r: "animate_donuts dt ds (ms[d := m]) = Inr ms'" and
    l: "length ms' = length (ms[d := m])" and
    o: "\<forall>j. j \<notin> set ds \<longrightarrow> ms' ! j = ms[d := m] ! j" and
    i: "\<forall>e\<in>set ds. animate_donut dt (ms[d := m] ! e) = Inr (ms' ! e)"
    by blast
  have "animate_donuts dt (d # ds) ms = Inr ms'"
    by (simp add: m r)
  moreover have "length ms' = length ms"
    using l by simp
  moreover have "\<forall>j. j \<notin> set (d # ds) \<longrightarrow> ms' ! j = ms ! j"
    using o by simp
  moreover have "\<forall>e\<in>set (d # ds). animate_donut dt (ms ! e) = Inr (ms' ! e)"
  proof
    fix e assume e: "e \<in> set (d # ds)"
    show "animate_donut dt (ms ! e) = Inr (ms' ! e)"
    proof (cases "e = d")
      case True
      have "ms' ! d = ms[d := m] ! d" using o dn by blast
      then show ?thesis using True m d by simp
    next
      case False
      with e have "e \<in> set ds" by simp
      with i have "animate_donut dt (ms[d := m] ! e) = Inr (ms' ! e)" by blast
      with False show ?thesis by simp
    qed
  qed
  ultimately show ?case by blast
qed

lemma animate_Inr:
  assumes "donuts_valid s"
  shows "\<exists>ms'. animate dt s =
        Inr (s\<lparr>meshes := ms', rendered_frames := rendered_frames s + 1, frame_requested := True\<rparr>)
    \<and> length ms' = length (meshes s)
    \<and> (\<forall>j. j \<notin> set (donutMeshes s) \<longrightarrow> ms' ! j = meshes s ! j)
    \<and> (\<forall>d\<in>set (donutMeshes s). animate_donut dt (meshes s ! d) = Inr (ms' ! d))"
proof -
  from assms have "distinct (donutMeshes s)"
    and "\<forall>d\<in>set (donutMeshes s). d < length (meshes s) \<and> velocity (meshes s ! d) \<noteq> None"
    by (simp_all add: donuts_valid_def list_all_iff)
  from animate_donuts_Inr [OF this, of dt] obtain ms' where
    "animate_donuts dt (donutMeshes s) (meshes s) = Inr ms'" "length ms' = length (meshes s)"
    "\<forall>j. j \<notin> set (donutMeshes s) \<longrightarrow> ms' ! j = meshes s ! j"
    "\<forall>d\<in>set (donutMeshes s). animate_donut dt (meshes s ! d) = Inr (ms' ! d)"
    by blast
  then show ?thesis
    by (intro exI [of _ ms']) (simp add: animate_def)
qed

text \<open>
  C1. In a tick, every donut is moved by its velocity scaled by \<open>deltaTime * 60\<close>, and
  on each axis the velocity component is negated exactly when the absolute value of
  the new position on that axis exceeds 10; otherwise it is unchanged. The position is
  not clamped: it is the moved position, whether inside the boundary or not.
\<close>

theorem animate_bounce:
  assumes "donuts_valid s"
  shows "\<exists>s'. animate dt s = Inr s' \<and>
    (\<forall>d\<in>set (donutMeshes s). \<forall>v. velocity (meshes s ! d) = Some v \<longrightarrow>
       position (meshes s' ! d) = addScaledVector (position (meshes s ! d)) v (dt * 60)
       \<and> velocity (meshes s' ! d) = Some (Vector3
            (if \<bar>vx (position (meshes s' ! d))\<bar> > 10 then - vx v else vx v)
            (if \<bar>vy (position (meshes s' ! d))\<bar> > 10 then - vy v else vy v)
            (if \<bar>vz (position (meshes s' ! d))\<bar> > 10 then - vz v else vz v)))"
proof -
  from animate_Inr [OF assms, of dt] obtain ms' where
    a: "animate dt s =
        Inr (s\<lparr>meshes := ms', rendered_frames := rendered_frames s + 1, frame_requested := True\<rparr>)"
    and m: "\<forall>d\<in>set (donutMeshes s). animate_donut dt (meshes s ! d) = Inr (ms' ! d)"
    by blast
  have "position (ms' ! d) = addScaledVector (position (meshes s ! d)) v (dt * 60)
       \<and> velocity (ms' ! d) = Some (Vector3
            (if \<bar>vx (position (ms' ! d))\<bar> > 10 then - vx v else vx v)
            (if \<bar>vy (position (ms' ! d))\<bar> > 10 then - vy v else vy v)
            (if \<bar>vz (position (ms' ! d))\<bar> > 10 then - vz v else vz v))"
    if d: "d \<in> set (donutMeshes s)" and v: "velocity (meshes s ! d) = Some v" for d v
  proof -
    from m d have "animate_donut dt (meshes s ! d) = Inr (ms' ! d)"
      by blast
    then have "ms' ! d = (meshes s ! d)\<lparr>rotation := Vector3 (vx (rotation (meshes s ! d)) + dt * 0.5) (vy (rotation (meshes s ! d)) + dt * 0.5)
                          (vz (rotation (meshes s ! d))),
           position := addScaledVector (position (meshes s ! d)) v (dt * 60),
           velocity := Some (Vector3
             (bounce (vx (addScaledVector (position (meshes s ! d)) v (dt * 60))) (vx v))
             (bounce (vy (addScaledVector (position (meshes s ! d)) v (dt * 60))) (vy v))
             (bounce (vz (addScaledVector (position (meshes s ! d)) v (dt * 60))) (vz v)))\<rparr>"
      using animate_donut_Some [OF v, of dt] by simp
    then show ?thesis
      by (simp add: bounce_def boundary_def)
  qed
  with a show ?thesis
    by simp
qed

theorem animate_bounce_witness:
  "\<exists>s'. animate (1 / 60) example_state = Inr s'
     \<and> position (meshes s' ! 0) = Vector3 10.75 0.5 (- 3.5)
     \<and> velocity (meshes s' ! 0) = Some (Vector3 (- 0.25) 0.5 (- 0.5))"
proof -
  have ok: "donuts_valid example_state"
    by (simp add: donuts_valid_def example_state_def example_donut_def)
  have v: "velocity (meshes example_state ! 0) = Some (Vector3 0.25 0.5 (- 0.5))"
    and p: "position (meshes example_state ! 0) = Vector3 10.5 0 (- 3)"
    and d: "0 \<in> set (donutMeshes example_state)"
    by (simp_all add: example_state_def example_donut_def)
  from animate_bounce [OF ok, of "1 / 60"] obtain s' where
    a: "animate (1 / 60) example_state = Inr s'" and
    b: "\<forall>d\<in>set (donutMeshes example_state). \<forall>v. velocity (meshes example_state ! d) = Some v \<longrightarrow>
       position (meshes s' ! d) = addScaledVector (position (meshes example_state ! d)) v (1 / 60 * 60)
       \<and> velocity (meshes s' ! d) = Some (Vector3
            (if \<bar>vx (position (meshes s' ! d))\<bar> > 10 then - vx v else vx v)
            (if \<bar>vy (position (meshes s' ! d))\<bar> > 10 then - vy v else vy v)
            (if \<bar>vz (position (meshes s' ! d))\<bar> > 10 then - vz v else vz v))"
    by blast
  from b d v have c: "position (meshes s' ! 0) = addScaledVector (position (meshes example_state ! 0)) (Vector3 0.25 0.5 (- 0.5)) (1 / 60 * 60)
       \<and> velocity (meshes s' ! 0) = Some (Vector3
            (if \<bar>vx (position (meshes s' ! 0))\<bar> > 10 then - vx (Vector3 0.25 0.5 (- 0.5)) else vx (Vector3 0.25 0.5 (- 0.5)))
            (if \<bar>vy (position (meshes s' ! 0))\<bar> > 10 then - vy (Vector3 0.25 0.5 (- 0.5)) else vy (Vector3 0.25 0.5 (- 0.5)))
            (if \<bar>vz (position (meshes s' ! 0))\<bar> > 10 then - vz (Vector3 0.25 0.5 (- 0.5)) else vz (Vector3 0.25 0.5 (- 0.5))))"
    by blast
  have pos: "position (meshes s' ! 0) = Vector3 10.75 0.5 (- 3.5)"
    using c by (simp add: p addScaledVector_def)
  have vel: "velocity (meshes s' ! 0) = Some (Vector3 (- 0.25) 0.5 (- 0.5))"
    using c unfolding pos by simp
  from a pos vel show ?thesis
    by blast
qed

section \<open>Every callback keeps the state well-formed\<close>

lemmas wf_defs = wellformed_def refs_valid_def scene_valid_def donuts_valid_def text_valid_def
  materials_unshared_def

lemma wellformed_boot: "wellformed (boot outcome win)"
  by (cases outcome)
    (simp_all add: wf_defs boot_def init_def script_body_def load_matcapTexture_def Let_def)

lemma wellformed_handleResize: "wellformed (handleResize s) = wellformed s"
  by (simp add: wf_defs handleResize_frame cong: option.case_cong)

lemma wellformed_window: "wellformed (s\<lparr>window := w\<rparr>) = wellformed s"
  by (simp add: wf_defs cong: option.case_cong)

lemma wellformed_config: "wellformed (s\<lparr>config := c\<rparr>) = wellformed s"
  by (simp add: wf_defs cong: option.case_cong)

lemma wellformed_pending: "wellformed (s\<lparr>font_request_pending := b\<rparr>) = wellformed s"
  by (simp add: wf_defs cong: option.case_cong)

lemma wellformed_frame_requested: "wellformed (s\<lparr>frame_requested := b\<rparr>) = wellformed s"
  by (simp add: wf_defs cong: option.case_cong)

lemma wellformed_console: "wellformed (s\<lparr>console := c\<rparr>) = wellformed s"
  by (simp add: wf_defs cong: option.case_cong)

lemma wellformed_onFontError: "wellformed (onFontError s) = wellformed s"
  by (simp add: wf_defs onFontError_def cong: option.case_cong)

lemma wellformed_materials:
  "length ms = length (materials s) \<Longrightarrow> wellformed (s\<lparr>materials := ms\<rparr>) = wellformed s"
  by (simp add: wf_defs cong: option.case_cong)

lemma onTextColorChange_Inr:
  assumes "textMesh s = Some tm"
  shows "onTextColorChange c s =
    Inr (s\<lparr>materials := (materials s)[mesh_material (meshes s ! tm) :=
           (materials s ! mesh_material (meshes s ! tm))\<lparr>color := c\<rparr>]\<rparr>)"
  using assms by (simp add: onTextColorChange_def Let_def)

lemma length_recolor:
  "length (fold (\<lambda>donut ms. let k = f donut in ms[k := (ms ! k)\<lparr>color := c\<rparr>]) ds ms0) = length ms0"
  by (induction ds arbitrary: ms0) (simp_all add: Let_def)

lemma wellformed_onDonutColorChange: "wellformed (onDonutColorChange c s) = wellformed s"
  unfolding onDonutColorChange_def
  by (rule wellformed_materials) (rule length_recolor)

lemma wellformed_onTextValueChange:
  assumes "wellformed s"
  shows "wellformed (onTextValueChange t s)"
proof (cases "textMesh s")
  case None
  with assms show ?thesis by (simp add: onTextValueChange_def)
next
  case (Some tm)
  show ?thesis
  proof (cases "loadedFont s")
    case None
    with Some assms show ?thesis by (simp add: onTextValueChange_def)
  next
    case (Some fnt)
    from assms \<open>textMesh s = Some tm\<close> have tm: "tm < length (meshes s)"
      by (simp add: wellformed_def text_valid_def)
    have mm: "map mesh_material ((meshes s)[tm := (meshes s ! tm)\<lparr>mesh_geometry := g\<rparr>]) =
        map mesh_material (meshes s)" for g
      using tm by (simp add: map_update list_update_same_conv)
    have vel: "velocity ((meshes s)[tm := (meshes s ! tm)\<lparr>mesh_geometry := g\<rparr>] ! d) =
        velocity (meshes s ! d)" for g d
      using tm by (cases "d = tm") simp_all
    have rv: "list_all (\<lambda>m. mesh_geometry m < Suc (length (geometries s)) \<and>
                   mesh_material m < length (materials s))
        ((meshes s)[tm := (meshes s ! tm)\<lparr>mesh_geometry := length (geometries s)\<rparr>])"
      if "refs_valid s"
    proof -
      have "mesh_geometry m < Suc (length (geometries s)) \<and> mesh_material m < length (materials s)"
        if "m \<in> set ((meshes s)[tm := (meshes s ! tm)\<lparr>mesh_geometry := length (geometries s)\<rparr>])" for m
      proof -
        from that set_update_subset_insert
        have "m = (meshes s ! tm)\<lparr>mesh_geometry := length (geometries s)\<rparr> \<or> m \<in> set (meshes s)"
          by fastforce
        moreover have "meshes s ! tm \<in> set (meshes s)"
          using tm by simp
        ultimately show ?thesis
          using \<open>refs_valid s\<close> by (auto simp: refs_valid_def list_all_iff less_Suc_eq)
      qed
      then show ?thesis by (simp add: list_all_iff)
    qed
    from assms rv show ?thesis
      using Some \<open>textMesh s = Some tm\<close>
      by (simp add: onTextValueChange_def Let_def wf_defs mm vel)
  qed
qed

lemma map_update_same: "f y = f (xs ! i) \<Longrightarrow> map f (xs[i := y]) = map f xs"
proof (cases "i < length xs")
  case True
  assume "f y = f (xs ! i)"
  with True show ?thesis
    by (auto simp: list_eq_iff_nth_eq nth_list_update)
next
  case False
  then show ?thesis
    by (simp add: list_update_beyond)
qed

lemma animate_donuts_keeps:
  assumes "animate_donuts dt ds ms = Inr ms'"
  shows "length ms' = length ms \<and> map mesh_material ms' = map mesh_material ms
    \<and> map mesh_geometry ms' = map mesh_geometry ms
    \<and> (\<forall>j. velocity (ms ! j) \<noteq> None \<longrightarrow> velocity (ms' ! j) \<noteq> None)"
  using assms
proof (induction ds arbitrary: ms)
  case Nil
  then show ?case by simp
next
  case (Cons d ds)
  from Cons.prems obtain m where m: "animate_donut dt (ms ! d) = Inr m"
    and r: "animate_donuts dt ds (ms[d := m]) = Inr ms'"
    by (auto split: sum.splits)
  note k = animate_donut_keeps [OF m]
  from Cons.IH [OF r] have l: "length ms' = length ms"
    and mm: "map mesh_material ms' = map mesh_material (ms[d := m])"
    and mg: "map mesh_geometry ms' = map mesh_geometry (ms[d := m])"
    and v: "\<forall>j. velocity (ms[d := m] ! j) \<noteq> None \<longrightarrow> velocity (ms' ! j) \<noteq> None"
    by simp_all
  have "map mesh_material (ms[d := m]) = map mesh_material ms"
    by (rule map_update_same) (simp add: k)
  moreover have "map mesh_geometry (ms[d := m]) = map mesh_geometry ms"
    by (rule map_update_same) (simp add: k)
  moreover have "velocity (ms' ! j) \<noteq> None" if "velocity (ms ! j) \<noteq> None" for j
  proof -
    have "velocity (ms[d := m] ! j) \<noteq> None"
    proof (cases "d < length ms")
      case True
      with that k(4) show ?thesis by (cases "j = d") simp_all
    next
      case False
      then have "ms[d := m] = ms" by (simp add: list_update_beyond)
      with that show ?thesis by simp
    qed
    with v show ?thesis by blast
  qed
  ultimately show ?case
    using l mm mg by simp
qed

lemma wellformed_animate:
  assumes "wellformed s"
  shows "\<exists>s'. animate dt s = Inr s' \<and> wellformed s'"
proof -
  from assms have dv: "donuts_valid s"
    by (simp add: wellformed_def)
  then have "distinct (donutMeshes s)"
    and "\<forall>d\<in>set (donutMeshes s). d < length (meshes s) \<and> velocity (meshes s ! d) \<noteq> None"
    by (simp_all add: donuts_valid_def list_all_iff)
  from animate_donuts_Inr [OF this, of dt] obtain ms' where
    ad: "animate_donuts dt (donutMeshes s) (meshes s) = Inr ms'"
    by blast
  then have a: "animate dt s =
        Inr (s\<lparr>meshes := ms', rendered_frames := rendered_frames s + 1, frame_requested := True\<rparr>)"
    by (simp add: animate_def)
  from animate_donuts_keeps [OF ad] have l: "length ms' = length (meshes s)"
    and mm: "map mesh_material ms' = map mesh_material (meshes s)"
    and mg: "map mesh_geometry ms' = map mesh_geometry (meshes s)"
    and v: "\<forall>j. velocity (meshes s ! j) \<noteq> None \<longrightarrow> velocity (ms' ! j) \<noteq> None"
    by simp_all
  have rv: "list_all (\<lambda>m. mesh_geometry m < length (geometries s) \<and>
                   mesh_material m < length (materials s)) ms'"
    if "refs_valid s"
  proof -
    have "mesh_geometry (ms' ! i) < length (geometries s) \<and>
        mesh_material (ms' ! i) < length (materials s)" if i: "i < length ms'" for i
    proof -
      have "mesh_geometry (ms' ! i) = map mesh_geometry ms' ! i"
        and "mesh_material (ms' ! i) = map mesh_material ms' ! i"
        using i by simp_all
      then have "mesh_geometry (ms' ! i) = mesh_geometry (meshes s ! i)"
        and "mesh_material (ms' ! i) = mesh_material (meshes s ! i)"
        using i l by (simp_all add: mm mg)
      moreover have "meshes s ! i \<in> set (meshes s)"
        using i l by simp
      ultimately show ?thesis
        using \<open>refs_valid s\<close> by (simp add: refs_valid_def list_all_iff)
    qed
    then show ?thesis
      by (simp add: list_all_length)
  qed
  have "wellformed (s\<lparr>meshes := ms', rendered_frames := rendered_frames s + 1,
      frame_requested := True\<rparr>)"
    using assms rv v
    by (auto simp: wf_defs l mm list_all_iff split: option.splits)
  with a show ?thesis by simp
qed

lemma setupSceneContent_fields:
  "meshes (setupSceneContent fnt r s) = meshes s @
      new_mesh (length (geometries s)) (length (materials s)) #
      map (\<lambda>i. make_donut (Suc (length (geometries s))) (Suc (length (materials s)) + i) r i) [0..<100]"
  "materials (setupSceneContent fnt r s) = materials s @
      new_material (matcapTexture s) (textColor (config s)) #
      map (\<lambda>i. new_material (matcapTexture s) (donutColors ! (i mod length donutColors))) [0..<100]"
  "geometries (setupSceneContent fnt r s) = geometries s @
      [createTextGeometry (textValue (config s)) fnt,
       \<lparr>gdata = TorusGeometry 0.3 0.2 16 32, gdisposed = False\<rparr>]"
  "textMesh (setupSceneContent fnt r s) = Some (length (meshes s))"
  "scene_children (setupSceneContent fnt r s) =
      fold (\<lambda>donut cs. remove1 (MeshNode donut) cs) (donutMeshes s)
        (scene_children s @ [MeshNode (length (meshes s))]) @
      map (\<lambda>i. MeshNode (Suc (length (meshes s)) + i)) [0..<100]"
  "gui_folders (setupSceneContent fnt r s) =
      destroy_folders 0 (length (gui_folders s)) (gui_folders s) @ [textFolder, donutFolder]"
  "loadedFont (setupSceneContent fnt r s) = Some fnt"
  by (simp_all add: setupSceneContent_eq)

lemma setupSceneContent_frame:
  "config (setupSceneContent fnt r s) = config s"
  "matcapTexture (setupSceneContent fnt r s) = matcapTexture s"
  "window (setupSceneContent fnt r s) = window s"
  "camera (setupSceneContent fnt r s) = camera s"
  "renderer (setupSceneContent fnt r s) = renderer s"
  "sizes (setupSceneContent fnt r s) = sizes s"
  "resize_listener (setupSceneContent fnt r s) = resize_listener s"
  "font_request_pending (setupSceneContent fnt r s) = font_request_pending s"
  "frame_requested (setupSceneContent fnt r s) = frame_requested s"
  "rendered_frames (setupSceneContent fnt r s) = rendered_frames s"
  "console (setupSceneContent fnt r s) = console s"
  "alerts (setupSceneContent fnt r s) = alerts s"
  by (simp_all add: setupSceneContent_eq)

lemma fold_remove1_distinct:
  "distinct cs \<Longrightarrow> distinct (fold (\<lambda>donut cs. remove1 (MeshNode donut) cs) ds cs)"
  by (induction ds arbitrary: cs) simp_all

lemma fold_remove1_subset:
  "set (fold (\<lambda>donut cs. remove1 (MeshNode donut) cs) ds cs) \<subseteq> set cs"
proof (induction ds arbitrary: cs)
  case Nil
  show ?case by simp
next
  case (Cons d ds)
  have "set (fold (\<lambda>donut cs. remove1 (MeshNode donut) cs) ds (remove1 (MeshNode d) cs))
      \<subseteq> set (remove1 (MeshNode d) cs)"
    by (rule Cons.IH)
  also have "\<dots> \<subseteq> set cs"
    by (rule set_remove1_subset)
  finally show ?case by simp
qed

lemma setupSceneContent_refs_valid:
  assumes "refs_valid s"
  shows "refs_valid (setupSceneContent fnt r s)"
  using assms
  by (auto simp: refs_valid_def setupSceneContent_fields list_all_iff make_donut_def
      new_mesh_def Let_def)

lemma setupSceneContent_materials_unshared:
  assumes "refs_valid s" "materials_unshared s"
  shows "materials_unshared (setupSceneContent fnt r s)"
proof -
  have m: "map mesh_material (meshes (setupSceneContent fnt r s)) =
      map mesh_material (meshes s) @ map (\<lambda>i. length (materials s) + i) [0..<101]"
  proof -
    have "[0..<101] = 0 # map Suc [0..<100]"
      by (simp add: upt_conv_Cons map_Suc_upt del: upt_Suc)
    then show ?thesis
      by (simp add: setupSceneContent_fields make_donut_def new_mesh_def Let_def comp_def)
  qed
  have "distinct (map (\<lambda>i. length (materials s) + i) [0..<101])"
    by (simp add: distinct_map inj_on_def)
  moreover have "set (map mesh_material (meshes s)) \<inter>
      set (map (\<lambda>i. length (materials s) + i) [0..<101]) = {}"
    using assms(1) by (auto simp: refs_valid_def list_all_iff)
  ultimately show ?thesis
    using assms(2) unfolding materials_unshared_def m by simp
qed

lemma setupSceneContent_donutMeshes_upt:
  "donutMeshes (setupSceneContent fnt r s) = [Suc (length (meshes s))..<length (meshes s) + 101]"
proof -
  have "map (\<lambda>i. Suc (length (meshes s)) + i) [0..<100] =
      [Suc (length (meshes s))..<Suc (length (meshes s)) + 100]"
  proof -
    have "map (\<lambda>i. Suc (length (meshes s)) + i) [0..<100] =
        map (\<lambda>i. i + Suc (length (meshes s))) [0..<100]"
      by (simp add: add.commute)
    also have "\<dots> = [Suc (length (meshes s))..<100 + Suc (length (meshes s))]"
      by (rule map_add_upt)
    finally show ?thesis
      by (simp add: add.commute)
  qed
  then show ?thesis
    by (simp add: setupSceneContent_donutMeshes add.commute)
qed

lemma setupSceneContent_donuts_valid: "donuts_valid (setupSceneContent fnt r s)"
proof -
  have "velocity (meshes (setupSceneContent fnt r s) ! d) \<noteq> None"
    if "Suc (length (meshes s)) \<le> d" "d < length (meshes s) + 101" for d
  proof -
    define i where "i = d - Suc (length (meshes s))"
    from that have i: "d = length (meshes s) + Suc i" "i < 100"
      by (simp_all add: i_def)
    show ?thesis
      unfolding i setupSceneContent_fields
      using i(2) by (simp add: nth_append make_donut_def Let_def)
  qed
  then show ?thesis
    unfolding donuts_valid_def setupSceneContent_donutMeshes_upt
    by (simp add: list_all_iff setupSceneContent_fields)
qed

lemma node_valid_mono: "node_valid n x \<Longrightarrow> n \<le> n' \<Longrightarrow> node_valid n' x"
  by (cases x) simp_all

lemma setupSceneContent_scene_valid:
  assumes "scene_valid s"
  shows "scene_valid (setupSceneContent fnt r s)"
proof -
  let ?m = "length (meshes s)"
  let ?old = "fold (\<lambda>donut cs. remove1 (MeshNode donut) cs) (donutMeshes s)
        (scene_children s @ [MeshNode ?m])"
  let ?new = "map (\<lambda>i. MeshNode (Suc ?m + i)) [0..<100]"
  from assms have d: "distinct (scene_children s)"
    and v: "\<forall>x\<in>set (scene_children s). node_valid ?m x"
    by (simp_all add: scene_valid_def list_all_iff)
  have v1: "\<forall>x\<in>set (scene_children s @ [MeshNode ?m]). node_valid (Suc ?m) x"
    using v by (auto intro: node_valid_mono)
  have "MeshNode ?m \<notin> set (scene_children s)"
    using v by auto
  with d have "distinct (scene_children s @ [MeshNode ?m])"
    by simp
  then have d_old: "distinct ?old"
    by (rule fold_remove1_distinct)
  have v_old: "\<forall>x\<in>set ?old. node_valid (Suc ?m) x"
    using v1 fold_remove1_subset [of "donutMeshes s" "scene_children s @ [MeshNode ?m]"]
    by blast
  have d_new: "distinct ?new"
    by (simp add: distinct_map inj_on_def)
  have disj: "set ?old \<inter> set ?new = {}"
    using v_old by auto
  have v_new: "\<forall>x\<in>set ?new. node_valid (?m + 101) x"
    by auto
  have v_old': "\<forall>x\<in>set ?old. node_valid (?m + 101) x"
    using v_old by (auto intro: node_valid_mono)
  have len: "length (meshes (setupSceneContent fnt r s)) = ?m + 101"
    by (simp add: setupSceneContent_fields)
  show ?thesis
    unfolding scene_valid_def len setupSceneContent_fields list_all_iff
    using d_old d_new disj v_new v_old' by auto
qed

lemma setupSceneContent_text_valid: "text_valid (setupSceneContent fnt r s)"
  unfolding text_valid_def setupSceneContent_donutMeshes_upt
  by (simp add: setupSceneContent_fields)

lemma wellformed_setupSceneContent:
  assumes "wellformed s"
  shows "wellformed (setupSceneContent fnt r s)"
  using assms unfolding wellformed_def
  by (simp add: setupSceneContent_refs_valid setupSceneContent_scene_valid
      setupSceneContent_donuts_valid setupSceneContent_text_valid
      setupSceneContent_materials_unshared)

lemma wellformed_onFontLoaded:
  assumes "wellformed s"
  shows "\<exists>s'. onFontLoaded fnt r dt s = Inr s' \<and> wellformed s'"
  unfolding onFontLoaded_def Let_def
  by (rule wellformed_animate)
    (simp add: wellformed_handleResize wellformed_setupSceneContent wellformed_console assms)

lemma has_controller_textMesh:
  assumes "text_valid s" "has_controller c s"
  shows "\<exists>tm. textMesh s = Some tm"
  using assms by (cases "textMesh s") (simp_all add: text_valid_def has_controller_def)

lemma wellformed_step:
  assumes "wellformed s"
  shows "\<exists>s'. step e s = Inr s' \<and> wellformed s'"
proof (cases e)
  case (Resize w h dpr)
  with assms show ?thesis
    by (simp add: Let_def wellformed_handleResize wellformed_window)
next
  case (FontLoaded fnt r dt)
  show ?thesis
  proof (cases "font_request_pending s")
    case True
    from assms have "wellformed (s\<lparr>font_request_pending := False\<rparr>)"
      by (simp add: wellformed_pending)
    from wellformed_onFontLoaded [OF this] True FontLoaded show ?thesis
      by simp
  next
    case False
    with assms FontLoaded show ?thesis by simp
  qed
next
  case FontError
  with assms show ?thesis
    by (simp add: wellformed_onFontError wellformed_pending)
next
  case (TextColorChanged c)
  show ?thesis
  proof (cases "has_controller TextColorController s")
    case True
    from assms have "text_valid s" by (simp add: wellformed_def)
    from has_controller_textMesh [OF this True] obtain tm where tm: "textMesh s = Some tm"
      by blast
    then have "textMesh (s\<lparr>config := (config s)\<lparr>textColor := c\<rparr>\<rparr>) = Some tm"
      by simp
    from onTextColorChange_Inr [OF this] True TextColorChanged assms show ?thesis
      by (simp add: wellformed_materials wellformed_config)
  next
    case False
    with assms TextColorChanged show ?thesis by simp
  qed
next
  case (TextValueChanged t)
  with assms show ?thesis
    by (simp add: wellformed_onTextValueChange wellformed_config)
next
  case (DonutColorChanged c)
  with assms show ?thesis
    by (simp add: wellformed_onDonutColorChange wellformed_config)
next
  case (AnimationFrame dt)
  show ?thesis
  proof (cases "frame_requested s")
    case True
    from assms have "wellformed (s\<lparr>frame_requested := False\<rparr>)"
      by (simp add: wellformed_frame_requested)
    from wellformed_animate [OF this] True AnimationFrame show ?thesis
      by simp
  next
    case False
    with assms AnimationFrame show ?thesis by simp
  qed
qed

lemma wellformed_run:
  assumes "wellformed s"
  shows "\<exists>s'. run es s = Inr s' \<and> wellformed s'"
  using assms
proof (induction es arbitrary: s)
  case Nil
  then show ?case by simp
next
  case (Cons e es)
  from wellformed_step [OF Cons.prems] obtain s1 where
    s1: "step e s = Inr s1" "wellformed s1"
    by blast
  from Cons.IH [OF s1(2)] s1(1) show ?case
    by simp
qed

lemma run_append:
  "run (es @ es') s = (case run es s of Inl err \<Rightarrow> Inl err | Inr s' \<Rightarrow> run es' s')"
  by (induction es arbitrary: s) (simp_all split: sum.splits)

section \<open>What the callbacks leave unchanged\<close>

lemma animate_frame:
  assumes "animate dt s = Inr s'"
  shows "donutMeshes s' = donutMeshes s" "textMesh s' = textMesh s"
    "scene_children s' = scene_children s" "gui_folders s' = gui_folders s"
    "materials s' = materials s" "geometries s' = geometries s"
    "loadedFont s' = loadedFont s" "font_request_pending s' = font_request_pending s"
    "alerts s' = alerts s" "config s' = config s" "matcapTexture s' = matcapTexture s"
    "frame_requested s'" "rendered_frames s' = Suc (rendered_frames s)"
    "resize_listener s' = resize_listener s"
  using assms by (auto simp: animate_def split: sum.splits)

lemma animate_meshes:
  assumes "animate dt s = Inr s'"
  shows "length (meshes s') = length (meshes s)"
    "map mesh_geometry (meshes s') = map mesh_geometry (meshes s)"
    "map mesh_material (meshes s') = map mesh_material (meshes s)"
proof -
  from assms obtain ms' where "animate_donuts dt (donutMeshes s) (meshes s) = Inr ms'"
    and "meshes s' = ms'"
    by (auto simp: animate_def split: sum.splits)
  with animate_donuts_keeps [of dt "donutMeshes s" "meshes s" ms']
  show "length (meshes s') = length (meshes s)"
    "map mesh_geometry (meshes s') = map mesh_geometry (meshes s)"
    "map mesh_material (meshes s') = map mesh_material (meshes s)"
    by simp_all
qed

lemma onTextValueChange_frame:
  "donutMeshes (onTextValueChange t s) = donutMeshes s"
  "textMesh (onTextValueChange t s) = textMesh s"
  "scene_children (onTextValueChange t s) = scene_children s"
  "gui_folders (onTextValueChange t s) = gui_folders s"
  "materials (onTextValueChange t s) = materials s"
  "loadedFont (onTextValueChange t s) = loadedFont s"
  "font_request_pending (onTextValueChange t s) = font_request_pending s"
  "alerts (onTextValueChange t s) = alerts s"
  "frame_requested (onTextValueChange t s) = frame_requested s"
  "rendered_frames (onTextValueChange t s) = rendered_frames s"
  "length (meshes (onTextValueChange t s)) = length (meshes s)"
  "resize_listener (onTextValueChange t s) = resize_listener s"
  by (simp_all add: onTextValueChange_def Let_def split: option.splits)

lemma onDonutColorChange_frame:
  "donutMeshes (onDonutColorChange c s) = donutMeshes s"
  "textMesh (onDonutColorChange c s) = textMesh s"
  "scene_children (onDonutColorChange c s) = scene_children s"
  "gui_folders (onDonutColorChange c s) = gui_folders s"
  "meshes (onDonutColorChange c s) = meshes s"
  "geometries (onDonutColorChange c s) = geometries s"
  "loadedFont (onDonutColorChange c s) = loadedFont s"
  "font_request_pending (onDonutColorChange c s) = font_request_pending s"
  "alerts (onDonutColorChange c s) = alerts s"
  "frame_requested (onDonutColorChange c s) = frame_requested s"
  "rendered_frames (onDonutColorChange c s) = rendered_frames s"
  "length (materials (onDonutColorChange c s)) = length (materials s)"
  "resize_listener (onDonutColorChange c s) = resize_listener s"
  by (simp_all add: onDonutColorChange_def length_recolor)

lemma onTextColorChange_frame:
  assumes "onTextColorChange c s = Inr s'"
  shows "donutMeshes s' = donutMeshes s" "textMesh s' = textMesh s"
    "scene_children s' = scene_children s" "gui_folders s' = gui_folders s"
    "meshes s' = meshes s" "geometries s' = geometries s"
    "loadedFont s' = loadedFont s" "font_request_pending s' = font_request_pending s"
    "alerts s' = alerts s" "frame_requested s' = frame_requested s"
    "rendered_frames s' = rendered_frames s" "length (materials s') = length (materials s)"
    "resize_listener s' = resize_listener s"
  using assms by (auto simp: onTextColorChange_def Let_def split: option.splits)

lemma onFontError_frame:
  "donutMeshes (onFontError s) = donutMeshes s" "textMesh (onFontError s) = textMesh s"
  "scene_children (onFontError s) = scene_children s" "gui_folders (onFontError s) = gui_folders s"
  "meshes (onFontError s) = meshes s" "geometries (onFontError s) = geometries s"
  "materials (onFontError s) = materials s" "loadedFont (onFontError s) = loadedFont s"
  "font_request_pending (onFontError s) = font_request_pending s"
  "frame_requested (onFontError s) = frame_requested s"
  "rendered_frames (onFontError s) = rendered_frames s"
  "resize_listener (onFontError s) = resize_listener s"
  by (simp_all add: onFontError_def)

lemma has_controller_frame:
  "gui_folders s' = gui_folders s \<Longrightarrow> has_controller c s' = has_controller c s"
  by (simp add: has_controller_def)

lemma step_frame:
  assumes "\<not> rebuilds e" "step e s = Inr s'"
  shows "donutMeshes s' = donutMeshes s" "textMesh s' = textMesh s"
    "scene_children s' = scene_children s" "gui_folders s' = gui_folders s"
    "loadedFont s' = loadedFont s" "length (meshes s') = length (meshes s)"
    "length (materials s') = length (materials s)" "resize_listener s' = resize_listener s"
proof -
  have "donutMeshes s' = donutMeshes s \<and> textMesh s' = textMesh s
    \<and> scene_children s' = scene_children s \<and> gui_folders s' = gui_folders s
    \<and> loadedFont s' = loadedFont s \<and> length (meshes s') = length (meshes s)
    \<and> length (materials s') = length (materials s) \<and> resize_listener s' = resize_listener s"
  proof (cases e)
    case (Resize w h dpr)
    with assms(2) show ?thesis
      by (auto simp: Let_def handleResize_frame split: if_splits)
  next
    case (FontLoaded fnt r dt)
    with assms(1) show ?thesis by simp
  next
    case FontError
    with assms(2) show ?thesis
      by (auto simp: onFontError_frame split: if_splits)
  next
    case (TextColorChanged c)
    show ?thesis
    proof (cases "has_controller TextColorController s")
      case True
      with assms(2) TextColorChanged
      have "onTextColorChange c (s\<lparr>config := (config s)\<lparr>textColor := c\<rparr>\<rparr>) = Inr s'"
        by simp
      note f = onTextColorChange_frame [OF this]
      show ?thesis by (simp add: f)
    next
      case False
      with assms(2) TextColorChanged show ?thesis by simp
    qed
  next
    case (TextValueChanged t)
    with assms(2) show ?thesis
      by (auto simp: onTextValueChange_frame split: if_splits)
  next
    case (DonutColorChanged c)
    with assms(2) show ?thesis
      by (auto simp: onDonutColorChange_frame split: if_splits)
  next
    case (AnimationFrame dt)
    show ?thesis
    proof (cases "frame_requested s")
      case True
      with assms(2) AnimationFrame
      have a: "animate dt (s\<lparr>frame_requested := False\<rparr>) = Inr s'"
        by simp
      note f = animate_frame [OF a] animate_meshes [OF a]
      show ?thesis by (simp add: f)
    next
      case False
      with assms(2) AnimationFrame show ?thesis by simp
    qed
  qed
  then show "donutMeshes s' = donutMeshes s" "textMesh s' = textMesh s"
    "scene_children s' = scene_children s" "gui_folders s' = gui_folders s"
    "loadedFont s' = loadedFont s" "length (meshes s') = length (meshes s)"
    "length (materials s') = length (materials s)" "resize_listener s' = resize_listener s"
    by simp_all
qed

section \<open>The text objects of the scene\<close>

lemma set_scene_meshes: "set (scene_meshes s) = {m. MeshNode m \<in> set (scene_children s)}"
proof -
  have "set (concat (map node_meshes cs)) = {m. MeshNode m \<in> set cs}" for cs
  proof (induction cs)
    case Nil
    show ?case by simp
  next
    case (Cons c cs)
    then show ?case by (cases c) auto
  qed
  then show ?thesis by (simp add: scene_meshes_def)
qed

lemma scene_meshes_valid:
  assumes "scene_valid s" "m \<in> set (scene_meshes s)"
  shows "m < length (meshes s)"
proof -
  from assms(2) have "MeshNode m \<in> set (scene_children s)"
    by (simp add: set_scene_meshes)
  with assms(1) have "node_valid (length (meshes s)) (MeshNode m)"
    unfolding scene_valid_def list_all_iff by blast
  then show ?thesis by simp
qed

lemma text_objects_eqI:
  assumes "scene_children s' = scene_children s"
    and "\<And>m. m \<in> set (scene_meshes s) \<Longrightarrow> is_text_mesh s' m = is_text_mesh s m"
  shows "text_objects s' = text_objects s"
proof -
  have "scene_meshes s' = scene_meshes s"
    using assms(1) by (simp add: scene_meshes_def)
  then show ?thesis
    unfolding text_objects_def using assms(2) by (auto intro: filter_cong)
qed

lemma text_objects_animate:
  assumes "animate dt s = Inr s'" "scene_valid s"
  shows "text_objects s' = text_objects s"
proof (rule text_objects_eqI)
  show "scene_children s' = scene_children s"
    by (rule animate_frame [OF assms(1)])
next
  fix m assume "m \<in> set (scene_meshes s)"
  with assms(2) have m: "m < length (meshes s)"
    by (rule scene_meshes_valid)
  have "mesh_geometry (meshes s' ! m) = map mesh_geometry (meshes s') ! m"
    using m animate_meshes(1) [OF assms(1)] by simp
  also have "\<dots> = mesh_geometry (meshes s ! m)"
    using m by (simp add: animate_meshes(2) [OF assms(1)])
  finally show "is_text_mesh s' m = is_text_mesh s m"
    by (simp add: is_text_mesh_def animate_frame [OF assms(1)])
qed

lemma onTextValueChange_Some:
  assumes "textMesh s = Some tm" "loadedFont s = Some fnt"
  shows "onTextValueChange t s =
    s\<lparr>geometries := (geometries s)[mesh_geometry (meshes s ! tm) :=
          (geometries s ! mesh_geometry (meshes s ! tm))\<lparr>gdisposed := True\<rparr>] @
          [createTextGeometry t fnt],
      meshes := (meshes s)[tm := (meshes s ! tm)\<lparr>mesh_geometry := length (geometries s)\<rparr>]\<rparr>"
  using assms by (simp add: onTextValueChange_def Let_def)

lemma text_objects_onTextValueChange:
  assumes "wellformed s" "textMesh s = Some tm" "is_text_mesh s tm"
  shows "text_objects (onTextValueChange t s) = text_objects s"
proof (cases "loadedFont s")
  case None
  with assms(2) show ?thesis by (simp add: onTextValueChange_def)
next
  case (Some fnt)
  note eq = onTextValueChange_Some [OF assms(2) Some, of t]
  from assms(1,2) have tm: "tm < length (meshes s)"
    by (simp add: wellformed_def text_valid_def)
  from assms(1) have rv: "\<forall>m\<in>set (meshes s). mesh_geometry m < length (geometries s)"
    by (simp add: wellformed_def refs_valid_def list_all_iff)
  show ?thesis
  proof (rule text_objects_eqI)
    show "scene_children (onTextValueChange t s) = scene_children s"
      by (simp add: onTextValueChange_frame)
  next
    fix m assume "m \<in> set (scene_meshes s)"
    with assms(1) have m: "m < length (meshes s)"
      by (auto simp: wellformed_def intro: scene_meshes_valid)
    show "is_text_mesh (onTextValueChange t s) m = is_text_mesh s m"
    proof (cases "m = tm")
      case True
      with tm assms(3) show ?thesis
        by (simp add: eq is_text_mesh_def nth_append createTextGeometry_def)
    next
      case False
      from m rv have g: "mesh_geometry (meshes s ! m) < length (geometries s)"
        by simp
      let ?old = "mesh_geometry (meshes s ! tm)"
      have "gdata (((geometries s)[?old := (geometries s ! ?old)\<lparr>gdisposed := True\<rparr>]) !
          mesh_geometry (meshes s ! m)) = gdata (geometries s ! mesh_geometry (meshes s ! m))"
        using g by (cases "mesh_geometry (meshes s ! m) = ?old") simp_all
      with False g show ?thesis
        by (simp add: eq is_text_mesh_def nth_append)
    qed
  qed
qed

lemma fold_remove1_filter:
  assumes "distinct cs"
  shows "fold (\<lambda>donut cs. remove1 (MeshNode donut) cs) ds cs =
    filter (\<lambda>n. n \<notin> MeshNode ` set ds) cs"
  using assms
proof (induction ds arbitrary: cs)
  case Nil
  show ?case by simp
next
  case (Cons d ds)
  have r: "remove1 (MeshNode d) cs = filter (\<lambda>n. n \<noteq> MeshNode d) cs"
    using Cons.prems by (simp add: distinct_remove1_removeAll removeAll_filter_not_eq eq_commute)
  have "distinct (remove1 (MeshNode d) cs)"
    using Cons.prems by simp
  from Cons.IH [OF this] show ?case
    by (simp add: r conj_commute)
qed

lemma node_meshes_filter:
  "concat (map node_meshes (filter (\<lambda>n. n \<notin> MeshNode ` D) cs)) =
     filter (\<lambda>m. m \<notin> D) (concat (map node_meshes cs))"
proof (induction cs)
  case Nil
  show ?case by simp
next
  case (Cons c cs)
  then show ?case by (cases c) auto
qed

lemma scene_meshes_setupSceneContent:
  assumes "wellformed s"
  shows "scene_meshes (setupSceneContent fnt r s) =
    filter (\<lambda>m. m \<notin> set (donutMeshes s)) (scene_meshes s) @ length (meshes s) #
    map (\<lambda>i. Suc (length (meshes s)) + i) [0..<100]"
proof -
  let ?m = "length (meshes s)"
  from assms have d: "distinct (scene_children s)"
    and v: "\<forall>x\<in>set (scene_children s). node_valid ?m x"
    and dv: "\<forall>d\<in>set (donutMeshes s). d < ?m"
    by (simp_all add: wf_defs list_all_iff)
  have "MeshNode ?m \<notin> set (scene_children s)"
    using v by auto
  with d have "distinct (scene_children s @ [MeshNode ?m])"
    by simp
  note f = fold_remove1_filter [OF this, of "donutMeshes s"]
  have "?m \<notin> set (donutMeshes s)"
    using dv by auto
  then show ?thesis
    unfolding scene_meshes_def setupSceneContent_fields f
    by (auto simp: node_meshes_filter comp_def)
qed

lemma is_text_mesh_setupSceneContent:
  assumes "wellformed s"
  shows "m < length (meshes s) \<Longrightarrow> is_text_mesh (setupSceneContent fnt r s) m = is_text_mesh s m"
    and "is_text_mesh (setupSceneContent fnt r s) (length (meshes s))"
    and "i < 100 \<Longrightarrow> \<not> is_text_mesh (setupSceneContent fnt r s) (Suc (length (meshes s)) + i)"
proof -
  from assms have rv: "\<forall>m\<in>set (meshes s). mesh_geometry m < length (geometries s)"
    by (simp add: wellformed_def refs_valid_def list_all_iff)
  show "is_text_mesh (setupSceneContent fnt r s) m = is_text_mesh s m" if "m < length (meshes s)"
    using that rv by (simp add: is_text_mesh_def setupSceneContent_fields nth_append)
  show "is_text_mesh (setupSceneContent fnt r s) (length (meshes s))"
    by (simp add: is_text_mesh_def setupSceneContent_fields nth_append new_mesh_def
        createTextGeometry_def)
  show "\<not> is_text_mesh (setupSceneContent fnt r s) (Suc (length (meshes s)) + i)" if "i < 100"
    using that
    by (simp add: is_text_mesh_def setupSceneContent_fields nth_append make_donut_def
        new_mesh_def Let_def)
qed

lemma text_objects_setupSceneContent:
  assumes "wellformed s"
  shows "text_objects (setupSceneContent fnt r s) =
    filter (\<lambda>m. m \<notin> set (donutMeshes s)) (text_objects s) @ [length (meshes s)]"
proof -
  note t = is_text_mesh_setupSceneContent [OF assms]
  have old: "filter (is_text_mesh (setupSceneContent fnt r s))
      (filter (\<lambda>m. m \<notin> set (donutMeshes s)) (scene_meshes s)) =
      filter (\<lambda>m. m \<notin> set (donutMeshes s)) (text_objects s)"
    unfolding text_objects_def filter_filter
  proof (rule filter_cong [OF refl])
    fix m assume "m \<in> set (scene_meshes s)"
    with assms have "m < length (meshes s)"
      by (auto simp: wellformed_def intro: scene_meshes_valid)
    then have "is_text_mesh (setupSceneContent fnt r s) m = is_text_mesh s m"
      by (rule t(1))
    then show "(m \<notin> set (donutMeshes s) \<and> is_text_mesh (setupSceneContent fnt r s) m) =
        (is_text_mesh s m \<and> m \<notin> set (donutMeshes s))"
      by auto
  qed
  have new: "filter (is_text_mesh (setupSceneContent fnt r s))
      (map (\<lambda>i. Suc (length (meshes s)) + i) [0..<100]) = []"
    using t(3) by (auto simp: filter_empty_conv)
  show ?thesis
    unfolding text_objects_def [of "setupSceneContent fnt r s"]
      scene_meshes_setupSceneContent [OF assms] filter_append filter.simps old new
    using t(2) by simp
qed

lemma text_objects_same:
  assumes "scene_children s' = scene_children s" "meshes s' = meshes s"
    "geometries s' = geometries s"
  shows "text_objects s' = text_objects s"
  using assms by (simp add: text_objects_def scene_meshes_def is_text_mesh_def [abs_def])

lemma step_pending:
  assumes "\<not> rebuilds e" "step e s = Inr s'" "\<not> font_request_pending s"
  shows "\<not> font_request_pending s'"
proof (cases e)
  case (Resize w h dpr)
  with assms show ?thesis
    by (auto simp: Let_def handleResize_frame split: if_splits)
next
  case (FontLoaded fnt r dt)
  with assms(1) show ?thesis by simp
next
  case FontError
  with assms show ?thesis by simp
next
  case (TextColorChanged c)
  show ?thesis
  proof (cases "has_controller TextColorController s")
    case True
    with assms(2) TextColorChanged
    have "onTextColorChange c (s\<lparr>config := (config s)\<lparr>textColor := c\<rparr>\<rparr>) = Inr s'"
      by simp
    from onTextColorChange_frame(8) [OF this] assms(3) show ?thesis by simp
  next
    case False
    with assms TextColorChanged show ?thesis by simp
  qed
next
  case (TextValueChanged t)
  with assms show ?thesis
    by (auto simp: onTextValueChange_frame split: if_splits)
next
  case (DonutColorChanged c)
  with assms show ?thesis
    by (auto simp: onDonutColorChange_frame split: if_splits)
next
  case (AnimationFrame dt)
  show ?thesis
  proof (cases "frame_requested s")
    case True
    with assms(2) AnimationFrame
    have a: "animate dt (s\<lparr>frame_requested := False\<rparr>) = Inr s'"
      by simp
    from animate_frame(8) [OF a] assms(3) show ?thesis by simp
  next
    case False
    with assms AnimationFrame show ?thesis by simp
  qed
qed

lemma step_text_objects:
  assumes "wellformed s" "\<not> rebuilds e" "step e s = Inr s'" "textMesh s = Some tm"
    "is_text_mesh s tm"
  shows "text_objects s' = text_objects s"
proof (cases e)
  case (Resize w h dpr)
  with assms(3) show ?thesis
    by (auto simp: Let_def handleResize_frame intro!: text_objects_same split: if_splits)
next
  case (FontLoaded fnt r dt)
  with assms(2) show ?thesis by simp
next
  case FontError
  with assms(3) show ?thesis
    by (auto simp: onFontError_frame intro!: text_objects_same split: if_splits)
next
  case (TextColorChanged c)
  show ?thesis
  proof (cases "has_controller TextColorController s")
    case True
    with assms(3) TextColorChanged
    have "onTextColorChange c (s\<lparr>config := (config s)\<lparr>textColor := c\<rparr>\<rparr>) = Inr s'"
      by simp
    note f = onTextColorChange_frame [OF this]
    show ?thesis
      by (rule text_objects_same) (simp_all add: f)
  next
    case False
    with assms(3) TextColorChanged show ?thesis by simp
  qed
next
  case (TextValueChanged t)
  show ?thesis
  proof (cases "has_controller TextValueController s")
    case True
    let ?s = "s\<lparr>config := (config s)\<lparr>textValue := t\<rparr>\<rparr>"
    from assms(1) have w: "wellformed ?s"
      by (simp add: wellformed_config)
    have tm: "textMesh ?s = Some tm" using assms(4) by simp
    have it: "is_text_mesh ?s tm" using assms(5) by (simp add: is_text_mesh_def)
    have "text_objects (onTextValueChange t ?s) = text_objects ?s"
      by (rule text_objects_onTextValueChange [OF w tm it])
    also have "\<dots> = text_objects s"
      by (rule text_objects_same) simp_all
    finally show ?thesis
      using assms(3) TextValueChanged True by simp
  next
    case False
    with assms(3) TextValueChanged show ?thesis by simp
  qed
next
  case (DonutColorChanged c)
  with assms(3) show ?thesis
    by (auto simp: onDonutColorChange_frame intro!: text_objects_same split: if_splits)
next
  case (AnimationFrame dt)
  show ?thesis
  proof (cases "frame_requested s")
    case True
    with assms(3) AnimationFrame
    have a: "animate dt (s\<lparr>frame_requested := False\<rparr>) = Inr s'"
      by simp
    from assms(1) have "scene_valid (s\<lparr>frame_requested := False\<rparr>)"
      by (simp add: wellformed_def scene_valid_def)
    from text_objects_animate [OF a this] have "text_objects s' = text_objects (s\<lparr>frame_requested := False\<rparr>)" .
    also have "\<dots> = text_objects s"
      by (rule text_objects_same) simp_all
    finally show ?thesis .
  next
    case False
    with assms(3) AnimationFrame show ?thesis by simp
  qed
qed

section \<open>Runs of the script\<close>

lemma program_invariant_boot: "program_invariant (boot outcome win)"
proof -
  have "textMesh (boot outcome win) = None \<and> meshes (boot outcome win) = []
    \<and> donutMeshes (boot outcome win) = [] \<and> scene_children (boot outcome win) = [CameraNode]
    \<and> resize_listener (boot outcome win)"
    by (cases outcome)
      (simp_all add: boot_def init_def script_body_def load_matcapTexture_def Let_def)
  then show ?thesis
    by (simp add: program_invariant_def wellformed_boot)
qed

lemma text_objects_handleResize: "text_objects (handleResize s) = text_objects s"
  by (rule text_objects_same) (simp_all add: handleResize_frame)

lemma text_objects_console: "text_objects (s\<lparr>console := c\<rparr>) = text_objects s"
  by (rule text_objects_same) simp_all

lemma onFontLoaded_build:
  assumes "wellformed s"
  shows "\<exists>s'. onFontLoaded fnt r dt s = Inr s' \<and> wellformed s'
    \<and> textMesh s' = Some (length (meshes s)) \<and> loadedFont s' = Some fnt
    \<and> donutMeshes s' = [Suc (length (meshes s))..<length (meshes s) + 101]
    \<and> gui_folders s' =
        destroy_folders 0 (length (gui_folders s)) (gui_folders s) @ [textFolder, donutFolder]
    \<and> text_objects s' =
        filter (\<lambda>m. m \<notin> set (donutMeshes s)) (text_objects s) @ [length (meshes s)]
    \<and> materials s' = materials (setupSceneContent fnt r s)
    \<and> geometries s' = geometries (setupSceneContent fnt r s)
    \<and> scene_children s' = scene_children (setupSceneContent fnt r s)
    \<and> font_request_pending s' = font_request_pending s
    \<and> resize_listener s' = resize_listener s
    \<and> alerts s' = alerts s
    \<and> frame_requested s' \<and> rendered_frames s' = Suc (rendered_frames s)"
proof -
  let ?s1 = "s\<lparr>console := console s @ [ConsoleLog (js_literal ''Font loaded.'')]\<rparr>"
  let ?s2 = "setupSceneContent fnt r ?s1"
  let ?s3 = "handleResize ?s2"
  have w1: "wellformed ?s1"
    using assms by (simp add: wellformed_console)
  then have w2: "wellformed ?s2"
    by (rule wellformed_setupSceneContent)
  then have w3: "wellformed ?s3"
    by (simp add: wellformed_handleResize)
  from wellformed_animate [OF w3, of dt] obtain s' where
    a: "animate dt ?s3 = Inr s'" and w: "wellformed s'"
    by blast
  note f = animate_frame [OF a]
  have sv: "scene_valid ?s3"
    using w3 by (simp add: wellformed_def)
  have t: "text_objects s' =
      filter (\<lambda>m. m \<notin> set (donutMeshes s)) (text_objects s) @ [length (meshes s)]"
    using text_objects_animate [OF a sv] text_objects_setupSceneContent [OF w1, of fnt r]
    by (simp add: text_objects_handleResize text_objects_console)
  have d: "donutMeshes s' = [Suc (length (meshes s))..<length (meshes s) + 101]"
    using setupSceneContent_donutMeshes_upt [of fnt r ?s1]
    by (simp add: f handleResize_frame)
  have "onFontLoaded fnt r dt s = Inr s'"
    by (simp add: onFontLoaded_def Let_def a)
  with w t d show ?thesis
    by (simp add: f handleResize_frame setupSceneContent_fields setupSceneContent_frame)
qed

lemma has_controller_built:
  assumes "gui_folders s = fs @ [textFolder, donutFolder]"
  shows "has_controller TextColorController s" "has_controller TextValueController s"
    "has_controller DonutColorController s"
  using assms by (simp_all add: has_controller_def textFolder_def donutFolder_def)

lemma program_invariant_step:
  assumes "program_invariant s"
  shows "\<exists>s'. step e s = Inr s' \<and> program_invariant s'"
proof -
  from assms have w: "wellformed s" and rl: "resize_listener s"
    by (simp_all add: program_invariant_def)
  from wellformed_step [OF w, of e] obtain s' where
    s': "step e s = Inr s'" and w': "wellformed s'"
    by blast
  have "program_invariant s'"
  proof (cases "rebuilds e")
    case False
    note f = step_frame [OF False s']
    show ?thesis
    proof (cases "textMesh s")
      case None
      with assms f w' show ?thesis
        by (simp add: program_invariant_def)
    next
      case (Some tm)
      with assms have b: "\<not> font_request_pending s" "text_objects s = [tm]"
        by (simp_all add: program_invariant_def)
      from b(2) have "tm \<in> set (text_objects s)" by simp
      then have "is_text_mesh s tm"
        by (simp add: text_objects_def)
      from step_text_objects [OF w False s' Some this] step_pending [OF False s' b(1)]
      show ?thesis
        using assms f w' Some
        by (simp add: program_invariant_def has_controller_frame [OF f(4)])
    qed
  next
    case True
    then obtain fnt r dt where e: "e = FontLoaded fnt r dt"
      by (cases e) simp_all
    show ?thesis
    proof (cases "font_request_pending s")
      case False
      with s' e assms show ?thesis by simp
    next
      case True
      with assms have n: "textMesh s = None" "meshes s = []" "donutMeshes s = []"
        "scene_children s = [CameraNode]"
        by (auto simp: program_invariant_def split: option.splits)
      let ?s = "s\<lparr>font_request_pending := False\<rparr>"
      have "wellformed ?s"
        using w by (simp add: wellformed_pending)
      from onFontLoaded_build [OF this, of fnt r dt] obtain s'' where
        b: "onFontLoaded fnt r dt ?s = Inr s''" "wellformed s''"
          "textMesh s'' = Some (length (meshes ?s))" "loadedFont s'' = Some fnt"
          "donutMeshes s'' = [Suc (length (meshes ?s))..<length (meshes ?s) + 101]"
          "gui_folders s'' = destroy_folders 0 (length (gui_folders ?s)) (gui_folders ?s) @
              [textFolder, donutFolder]"
          "text_objects s'' =
              filter (\<lambda>m. m \<notin> set (donutMeshes ?s)) (text_objects ?s) @ [length (meshes ?s)]"
          "font_request_pending s'' = font_request_pending ?s"
          "resize_listener s'' = resize_listener ?s"
        by blast
      from b(1) s' e True have eq: "s'' = s'" by simp
      have "text_objects ?s = []"
        using n by (simp add: text_objects_def scene_meshes_def)
      with b rl n show ?thesis
        unfolding eq [symmetric]
        by (simp add: program_invariant_def has_controller_built [OF b(6)])
    qed
  qed
  with s' show ?thesis by blast
qed

lemma program_invariant_run:
  assumes "program_invariant s"
  shows "\<exists>s'. run es s = Inr s' \<and> program_invariant s'"
  using assms
proof (induction es arbitrary: s)
  case Nil
  then show ?case by simp
next
  case (Cons e es)
  from program_invariant_step [OF Cons.prems] obtain s1 where
    s1: "step e s = Inr s1" "program_invariant s1"
    by blast
  from Cons.IH [OF s1(2)] s1(1) show ?case
    by simp
qed

lemma program_run:
  "\<exists>s. run es (boot outcome win) = Inr s \<and> program_invariant s"
  by (rule program_invariant_run) (rule program_invariant_boot)

text \<open>
  The hypotheses of the theorems on \<open>animate\<close> and on the resize event hold in every
  state of a run of the script, and no callback ever fails there.
\<close>

lemma program_states:
  assumes "run es (boot outcome win) = Inr s"
  shows "wellformed s" "donuts_valid s" "resize_listener s"
proof -
  from program_run [of es outcome win] assms have "program_invariant s"
    by auto
  then show "wellformed s" "donuts_valid s" "resize_listener s"
    by (simp_all add: program_invariant_def wellformed_def)
qed

lemma replicate_101: "x # replicate 100 x = replicate 101 x"
proof -
  have "(101::nat) = Suc 100" by simp
  then show ?thesis by (simp only: replicate_Suc)
qed

lemma boot_fields:
  "meshes (boot outcome win) = []" "materials (boot outcome win) = []"
  "geometries (boot outcome win) = []" "donutMeshes (boot outcome win) = []"
  "textMesh (boot outcome win) = None" "gui_folders (boot outcome win) = []"
  "scene_children (boot outcome win) = [CameraNode]" "font_request_pending (boot outcome win)"
  "resize_listener (boot outcome win)" "\<not> frame_requested (boot outcome win)"
  "rendered_frames (boot outcome win) = 0" "alerts (boot outcome win) = []"
  "loadedFont (boot outcome win) = None" "window (boot outcome win) = win"
  "config (boot outcome win) =
     \<lparr>donutColor = 0xff0000, textColor = 0xffffff, textValue = js_literal ''Hello :)''\<rparr>"
  by (cases outcome;
      simp add: boot_def init_def script_body_def load_matcapTexture_def Let_def)+

lemma boot_matcapTexture:
  "matcapTexture (boot TextureLoaded win) =
     Some \<lparr>image_loaded = True, colorSpace = SRGBColorSpace\<rparr>"
  "matcapTexture (boot TextureFetchFailed win) =
     Some \<lparr>image_loaded = False, colorSpace = SRGBColorSpace\<rparr>"
  "matcapTexture (boot TextureLoadThrew win) = None"
  by (simp_all add: boot_def init_def script_body_def load_matcapTexture_def Let_def)

lemma first_build:
  "\<exists>s. step (FontLoaded fnt r dt) (boot outcome win) = Inr s \<and> program_invariant s
    \<and> textMesh s = Some 0 \<and> donutMeshes s = [1..<101] \<and> loadedFont s = Some fnt
    \<and> materials s =
        new_material (matcapTexture (boot outcome win)) 0xffffff #
        map (\<lambda>i. new_material (matcapTexture (boot outcome win))
                   (donutColors ! (i mod length donutColors))) [0..<100]
    \<and> geometries s =
        [createTextGeometry (js_literal ''Hello :)'') fnt,
         \<lparr>gdata = TorusGeometry 0.3 0.2 16 32, gdisposed = False\<rparr>]
    \<and> frame_requested s \<and> rendered_frames s = 1 \<and> alerts s = []"
proof -
  let ?b = "boot outcome win"
  let ?s = "?b\<lparr>font_request_pending := False\<rparr>"
  from program_invariant_step [OF program_invariant_boot, of "FontLoaded fnt r dt" outcome win]
  obtain s where s: "step (FontLoaded fnt r dt) ?b = Inr s" "program_invariant s"
    by blast
  have "wellformed ?s"
    by (simp add: wellformed_pending wellformed_boot)
  from onFontLoaded_build [OF this, of fnt r dt] obtain s' where
    b: "onFontLoaded fnt r dt ?s = Inr s'" "textMesh s' = Some (length (meshes ?s))"
      "loadedFont s' = Some fnt"
      "donutMeshes s' = [Suc (length (meshes ?s))..<length (meshes ?s) + 101]"
      "materials s' = materials (setupSceneContent fnt r ?s)"
      "geometries s' = geometries (setupSceneContent fnt r ?s)"
      "alerts s' = alerts ?s" "frame_requested s'" "rendered_frames s' = Suc (rendered_frames ?s)"
    by blast
  from b(1) s(1) have eq: "s' = s"
    by (simp add: boot_fields)
  from b s(2) show ?thesis
    unfolding eq
    by (intro exI [of _ s]) (simp add: s(1) boot_fields setupSceneContent_fields)
qed

section \<open>The donut population\<close>

text \<open>
  C5. Every invocation of the content builder leaves exactly 100 donuts in the donut
  list, no other callback changes the list, and so in a run of the script the list has
  100 entries in every state in which the content exists.
\<close>

theorem donut_population_size:
  "length (donutMeshes (setupSceneContent fnt r s)) = 100
   \<and> (\<forall>s'. onFontLoaded fnt r dt s = Inr s' \<longrightarrow> length (donutMeshes s') = 100)
   \<and> (\<forall>e s'. \<not> rebuilds e \<longrightarrow> step e s = Inr s' \<longrightarrow> donutMeshes s' = donutMeshes s)
   \<and> (\<forall>es s'. run es (boot outcome win) = Inr s' \<longrightarrow> textMesh s' \<noteq> None \<longrightarrow>
         length (donutMeshes s') = 100)"
proof -
  have 1: "length (donutMeshes (setupSceneContent fnt r s)) = 100"
    by (simp add: setupSceneContent_donutMeshes)
  have 2: "length (donutMeshes s') = 100" if "onFontLoaded fnt r dt s = Inr s'" for s'
  proof -
    from that have "animate dt (handleResize (setupSceneContent fnt r
        (s\<lparr>console := console s @ [ConsoleLog (js_literal ''Font loaded.'')]\<rparr>))) = Inr s'"
      by (simp add: onFontLoaded_def Let_def)
    from animate_frame(1) [OF this] show ?thesis
      by (simp add: handleResize_frame setupSceneContent_donutMeshes)
  qed
  have 3: "donutMeshes s' = donutMeshes s" if "\<not> rebuilds e" "step e s = Inr s'" for e s'
    using that by (rule step_frame)
  have 4: "length (donutMeshes s') = 100"
    if "run es (boot outcome win) = Inr s'" "textMesh s' \<noteq> None" for es s'
  proof -
    from program_run [of es outcome win] that(1) have "program_invariant s'"
      by auto
    with that(2) show ?thesis
      by (auto simp: program_invariant_def)
  qed
  from 1 2 3 4 show ?thesis by blast
qed

theorem donut_population_size_witness:
  "\<exists>s s'. step (FontLoaded example_font example_random 0) (boot TextureLoaded example_window) = Inr s
     \<and> step (DonutColorChanged 0x00ff00) s = Inr s'
     \<and> length (donutMeshes s) = 100 \<and> length (donutMeshes s') = 100"
proof -
  from first_build [of example_font example_random 0 TextureLoaded example_window]
  obtain s where s: "step (FontLoaded example_font example_random 0)
      (boot TextureLoaded example_window) = Inr s" "program_invariant s" "textMesh s = Some 0"
    by blast
  from program_invariant_step [OF s(2), of "DonutColorChanged 0x00ff00"]
  obtain s' where s': "step (DonutColorChanged 0x00ff00) s = Inr s'"
    by blast
  have r: "run [FontLoaded example_font example_random 0] (boot TextureLoaded example_window) =
      Inr s"
    by (simp only: run.simps s(1) sum.case)
  have n: "\<not> rebuilds (DonutColorChanged 0x00ff00)"
    by simp
  note t = donut_population_size [of example_font example_random s 0 TextureLoaded example_window]
  from t r s(3) have 1: "length (donutMeshes s) = 100"
    by blast
  from t n s' have "donutMeshes s' = donutMeshes s"
    by blast
  with 1 s(1) s' show ?thesis
    by auto
qed

section \<open>Texture failure\<close>

text \<open>
  The fallback of line 81 and line 98 is taken when the texture loader throws: then
  start-up goes on, a warning is logged and all 101 materials are basic ones.
\<close>

lemma texture_throw_uses_basic:
  "\<exists>s. step (FontLoaded fnt r dt) (boot TextureLoadThrew win) = Inr s
    \<and> map mkind (materials s) = replicate 101 MeshBasicMaterial
    \<and> console (boot TextureLoadThrew win) =
        [ConsoleWarn (js_literal ''Could not load matcap texture. Using basic materials.''),
         ConsoleLog (js_literal ''Initializing...'')]"
proof -
  from first_build [of fnt r dt TextureLoadThrew win] obtain s where
    s: "step (FontLoaded fnt r dt) (boot TextureLoadThrew win) = Inr s"
    "materials s =
        new_material (matcapTexture (boot TextureLoadThrew win)) 0xffffff #
        map (\<lambda>i. new_material (matcapTexture (boot TextureLoadThrew win))
                   (donutColors ! (i mod length donutColors))) [0..<100]"
    by blast
  have "map mkind (materials s) = replicate 101 MeshBasicMaterial"
    unfolding s(2) boot_matcapTexture
    by (simp add: new_material_def comp_def map_replicate_const replicate_101)
  moreover have "console (boot TextureLoadThrew win) =
        [ConsoleWarn (js_literal ''Could not load matcap texture. Using basic materials.''),
         ConsoleLog (js_literal ''Initializing...'')]"
    by (simp add: boot_def init_def script_body_def load_matcapTexture_def Let_def)
  ultimately show ?thesis
    using s(1) by blast
qed

text \<open>
  C3. When the texture cannot be fetched, the loader has nevertheless returned a texture
  object: nothing is thrown, the variable is not null, no warning is logged, start-up
  goes on, and the text material and the 100 donut materials are all of the matcap
  variant, not of the flat-colour fallback.
\<close>

theorem texture_fetch_failure_uses_matcap:
  "\<exists>s. step (FontLoaded fnt r dt) (boot TextureFetchFailed win) = Inr s
    \<and> map mkind (materials s) =
        replicate 101 (MeshMatcapMaterial \<lparr>image_loaded = False, colorSpace = SRGBColorSpace\<rparr>)
    \<and> MeshBasicMaterial \<notin> set (map mkind (materials s))
    \<and> console (boot TextureFetchFailed win) = [ConsoleLog (js_literal ''Initializing...'')]"
proof -
  from first_build [of fnt r dt TextureFetchFailed win] obtain s where
    s: "step (FontLoaded fnt r dt) (boot TextureFetchFailed win) = Inr s"
    "materials s =
        new_material (matcapTexture (boot TextureFetchFailed win)) 0xffffff #
        map (\<lambda>i. new_material (matcapTexture (boot TextureFetchFailed win))
                   (donutColors ! (i mod length donutColors))) [0..<100]"
    by blast
  have m: "map mkind (materials s) =
      replicate 101 (MeshMatcapMaterial \<lparr>image_loaded = False, colorSpace = SRGBColorSpace\<rparr>)"
    unfolding s(2) boot_matcapTexture
    by (simp add: new_material_def comp_def map_replicate_const replicate_101)
  have "MeshBasicMaterial \<notin> set (map mkind (materials s))"
    unfolding m by simp
  moreover have "console (boot TextureFetchFailed win) =
      [ConsoleLog (js_literal ''Initializing...'')]"
    by (simp add: boot_def init_def script_body_def load_matcapTexture_def Let_def)
  ultimately show ?thesis
    using s(1) m by blast
qed

section \<open>Font failure\<close>

lemma no_content_step:
  assumes "no_content s" "\<not> (rebuilds e \<and> font_request_pending s)"
  shows "\<exists>s'. step e s = Inr s' \<and> no_content s'
    \<and> font_request_pending s' = (font_request_pending s \<and> e \<noteq> FontError)
    \<and> alerts s' = (if e = FontError \<and> font_request_pending s then alerts s @ [font_alert]
                   else alerts s)"
proof (cases e)
  case (Resize w h dpr)
  with assms(1) show ?thesis
    by (simp add: no_content_def Let_def handleResize_frame)
next
  case (FontLoaded fnt r dt)
  with assms show ?thesis by simp
next
  case FontError
  with assms(1) show ?thesis
    by (simp add: no_content_def onFontError_def font_alert_def)
next
  case (TextColorChanged c)
  with assms(1) show ?thesis
    by (simp add: no_content_def has_controller_def)
next
  case (TextValueChanged t)
  with assms(1) show ?thesis
    by (simp add: no_content_def has_controller_def)
next
  case (DonutColorChanged c)
  with assms(1) show ?thesis
    by (simp add: no_content_def has_controller_def)
next
  case (AnimationFrame dt)
  with assms(1) show ?thesis
    by (simp add: no_content_def)
qed

lemma no_content_waiting:
  assumes "no_content s" "font_request_pending s" "\<not> list_ex font_callback es"
  shows "\<exists>s'. run es s = Inr s' \<and> no_content s' \<and> font_request_pending s'
    \<and> alerts s' = alerts s"
  using assms
proof (induction es arbitrary: s)
  case Nil
  then show ?case by simp
next
  case (Cons e es)
  from Cons.prems(3) have e: "\<not> font_callback e" and es: "\<not> list_ex font_callback es"
    by simp_all
  from e have "\<not> rebuilds e" "e \<noteq> FontError"
    by (cases e; simp)+
  with no_content_step [OF Cons.prems(1), of e] Cons.prems(2) obtain s1 where
    s1: "step e s = Inr s1" "no_content s1" "font_request_pending s1" "alerts s1 = alerts s"
    by auto
  from Cons.IH [OF s1(2,3) es] s1(1,4) show ?case
    by simp
qed

lemma no_content_failed:
  assumes "no_content s" "\<not> font_request_pending s"
  shows "\<exists>s'. run es s = Inr s' \<and> no_content s' \<and> \<not> font_request_pending s'
    \<and> alerts s' = alerts s"
  using assms
proof (induction es arbitrary: s)
  case Nil
  then show ?case by simp
next
  case (Cons e es)
  with no_content_step [OF Cons.prems(1), of e] obtain s1 where
    s1: "step e s = Inr s1" "no_content s1" "\<not> font_request_pending s1" "alerts s1 = alerts s"
    by auto
  from Cons.IH [OF s1(2,3)] s1(1,4) show ?case
    by simp
qed

lemma no_content_boot:
  "no_content (boot outcome win)" "font_request_pending (boot outcome win)"
  "alerts (boot outcome win) = []"
  by (cases outcome;
      simp add: no_content_def boot_def init_def script_body_def load_matcapTexture_def Let_def)+

text \<open>
  C2. When the font loader reports failure (no font callback having run before, as the
  request is answered once), then whatever events follow, there is no text mesh, no
  donut, no mesh, geometry or material at all, the scene holds the camera only, no
  frame has been requested or drawn, and exactly one alert has been shown.
\<close>

theorem font_failure_no_content:
  assumes "\<not> list_ex font_callback es1"
  shows "\<exists>s. run (es1 @ FontError # es2) (boot outcome win) = Inr s
    \<and> alerts s = [js_literal ''Failed to load font. Check console and file path (public/fonts).'']
    \<and> textMesh s = None \<and> donutMeshes s = [] \<and> meshes s = [] \<and> geometries s = []
    \<and> materials s = [] \<and> scene_children s = [CameraNode] \<and> gui_folders s = []
    \<and> \<not> frame_requested s \<and> rendered_frames s = 0"
proof -
  from no_content_waiting [OF no_content_boot(1,2) assms, of outcome win] obtain s1 where
    s1: "run es1 (boot outcome win) = Inr s1" "no_content s1" "font_request_pending s1"
      "alerts s1 = []"
    by (auto simp: no_content_boot(3))
  from no_content_step [OF s1(2), of FontError] s1(3,4) obtain s2 where
    s2: "step FontError s1 = Inr s2" "no_content s2" "\<not> font_request_pending s2"
      "alerts s2 = [font_alert]"
    by auto
  from no_content_failed [OF s2(2,3), of es2] s2(4) obtain s3 where
    s3: "run es2 s2 = Inr s3" "no_content s3" "alerts s3 = [font_alert]"
    by auto
  have "run (FontError # es2) s1 = Inr s3"
    unfolding run.simps s2(1) sum.case by (rule s3(1))
  then have "run (es1 @ FontError # es2) (boot outcome win) = Inr s3"
    by (simp only: run_append s1(1) sum.case)
  with s3(2,3) show ?thesis
    by (simp add: no_content_def font_alert_def)
qed

theorem font_failure_no_content_witness:
  "\<exists>s. run [Resize 1024 768 2, FontError, AnimationFrame (1 / 60),
           FontLoaded example_font example_random 0, TextValueChanged (js_literal ''Hi'')]
        (boot TextureLoaded example_window) = Inr s
    \<and> alerts s = [js_literal ''Failed to load font. Check console and file path (public/fonts).'']
    \<and> textMesh s = None \<and> meshes s = [] \<and> scene_children s = [CameraNode]
    \<and> \<not> frame_requested s \<and> rendered_frames s = 0"
proof -
  have h: "\<not> list_ex font_callback [Resize 1024 768 2]"
    by simp
  from font_failure_no_content [OF h,
      of "[AnimationFrame (1 / 60), FontLoaded example_font example_random 0,
           TextValueChanged (js_literal ''Hi'')]" TextureLoaded example_window]
  show ?thesis
    by auto
qed

section \<open>The colour controls\<close>

lemma recolor_nth:
  assumes "\<forall>k\<in>set ks. k < length ms" "j < length ms"
  shows "fold (\<lambda>k ms. ms[k := (ms ! k)\<lparr>color := c\<rparr>]) ks ms ! j =
    (if j \<in> set ks then (ms ! j)\<lparr>color := c\<rparr> else ms ! j)"
  using assms
proof (induction ks arbitrary: ms)
  case Nil
  show ?case by simp
next
  case (Cons k ks)
  let ?ms = "ms[k := (ms ! k)\<lparr>color := c\<rparr>]"
  from Cons.prems have k: "k < length ms" and ks: "\<forall>k\<in>set ks. k < length ?ms"
    and j: "j < length ?ms"
    by simp_all
  have "fold (\<lambda>k ms. ms[k := (ms ! k)\<lparr>color := c\<rparr>]) (k # ks) ms ! j =
      fold (\<lambda>k ms. ms[k := (ms ! k)\<lparr>color := c\<rparr>]) ks ?ms ! j"
    by simp
  also have "\<dots> = (if j \<in> set ks then (?ms ! j)\<lparr>color := c\<rparr> else ?ms ! j)"
    by (rule Cons.IH [OF ks j])
  also have "\<dots> = (if j \<in> set (k # ks) then (ms ! j)\<lparr>color := c\<rparr> else ms ! j)"
    using k by (cases "j = k") simp_all
  finally show ?case .
qed

lemma onDonutColorChange_materials:
  "materials (onDonutColorChange c s) =
     fold (\<lambda>k ms. ms[k := (ms ! k)\<lparr>color := c\<rparr>])
       (map (\<lambda>donut. mesh_material (meshes s ! donut)) (donutMeshes s)) (materials s)"
  by (simp add: onDonutColorChange_def fold_map comp_def Let_def)

lemma onDonutColorChange_nth:
  assumes "wellformed s" "k < length (materials s)"
  shows "materials (onDonutColorChange c s) ! k =
    (if k \<in> (\<lambda>d. mesh_material (meshes s ! d)) ` set (donutMeshes s)
     then (materials s ! k)\<lparr>color := c\<rparr> else materials s ! k)"
proof -
  have "\<forall>k\<in>set (map (\<lambda>donut. mesh_material (meshes s ! donut)) (donutMeshes s)).
      k < length (materials s)"
    using assms(1) by (auto simp: wf_defs list_all_iff)
  from recolor_nth [OF this assms(2), of c] show ?thesis
    by (simp add: onDonutColorChange_materials)
qed

lemma text_material_unshared:
  assumes "wellformed s" "textMesh s = Some tm" "d \<in> set (donutMeshes s)"
  shows "mesh_material (meshes s ! d) \<noteq> mesh_material (meshes s ! tm)"
proof
  assume eq: "mesh_material (meshes s ! d) = mesh_material (meshes s ! tm)"
  from assms have tm: "tm < length (meshes s)" "tm \<notin> set (donutMeshes s)"
    and d: "d < length (meshes s)"
    and dist: "distinct (map mesh_material (meshes s))"
    by (auto simp: wf_defs list_all_iff)
  have "d = tm"
    using nth_eq_iff_index_eq [OF dist, of d tm] tm(1) d eq by simp
  with assms(3) tm(2) show False by simp
qed

lemma wellformed_material_valid:
  assumes "wellformed s" "m < length (meshes s)"
  shows "mesh_material (meshes s ! m) < length (materials s)"
    "mesh_geometry (meshes s ! m) < length (geometries s)"
  using assms by (simp_all add: wf_defs list_all_length)

text \<open>
  C7. In a run of the script, once the content exists: a change of the text colour
  control sets the colour of the text mesh's material and leaves every other material,
  in particular the material of each of the 100 donuts, as it was; a change of the
  global donut colour control sets the colour of the material of each of the 100
  donuts and leaves every other material, in particular the text material, as it was.
\<close>

theorem color_pickers:
  assumes "run es (boot outcome win) = Inr s" "textMesh s = Some tm"
  shows "length (donutMeshes s) = 100
    \<and> (\<exists>s'. step (TextColorChanged c) s = Inr s'
          \<and> meshes s' = meshes s \<and> donutMeshes s' = donutMeshes s \<and> textMesh s' = Some tm
          \<and> length (materials s') = length (materials s)
          \<and> materials s' ! mesh_material (meshes s ! tm) =
              (materials s ! mesh_material (meshes s ! tm))\<lparr>color := c\<rparr>
          \<and> (\<forall>k. k \<noteq> mesh_material (meshes s ! tm) \<longrightarrow> materials s' ! k = materials s ! k)
          \<and> (\<forall>d\<in>set (donutMeshes s).
                materials s' ! mesh_material (meshes s ! d) =
                materials s ! mesh_material (meshes s ! d)))
    \<and> (\<exists>s'. step (DonutColorChanged c) s = Inr s'
          \<and> meshes s' = meshes s \<and> donutMeshes s' = donutMeshes s \<and> textMesh s' = Some tm
          \<and> length (materials s') = length (materials s)
          \<and> (\<forall>d\<in>set (donutMeshes s).
                materials s' ! mesh_material (meshes s ! d) =
                (materials s ! mesh_material (meshes s ! d))\<lparr>color := c\<rparr>)
          \<and> (\<forall>k. k < length (materials s) \<longrightarrow>
                k \<notin> (\<lambda>d. mesh_material (meshes s ! d)) ` set (donutMeshes s) \<longrightarrow>
                materials s' ! k = materials s ! k)
          \<and> materials s' ! mesh_material (meshes s ! tm) =
              materials s ! mesh_material (meshes s ! tm))"
proof -
  from program_run [of es outcome win] assms(1) have inv: "program_invariant s"
    by auto
  with assms(2) have w: "wellformed s" and n: "length (donutMeshes s) = 100"
    and tc: "has_controller TextColorController s"
    and dc: "has_controller DonutColorController s"
    by (simp_all add: program_invariant_def)
  from w assms(2) have tm: "tm < length (meshes s)"
    by (simp add: wf_defs)
  note tk = wellformed_material_valid(1) [OF w tm]
  let ?tk = "mesh_material (meshes s ! tm)"
  \<comment> \<open>the text colour control\<close>
  let ?s1 = "s\<lparr>config := (config s)\<lparr>textColor := c\<rparr>,
      materials := (materials s)[?tk := (materials s ! ?tk)\<lparr>color := c\<rparr>]\<rparr>"
  have t1: "step (TextColorChanged c) s = Inr ?s1"
    using tc assms(2) by (simp add: onTextColorChange_def Let_def)
  have t2: "materials ?s1 ! ?tk = (materials s ! ?tk)\<lparr>color := c\<rparr>"
    using tk by simp
  have t3: "\<forall>k. k \<noteq> ?tk \<longrightarrow> materials ?s1 ! k = materials s ! k"
    by simp
  have t4: "\<forall>d\<in>set (donutMeshes s).
      materials ?s1 ! mesh_material (meshes s ! d) = materials s ! mesh_material (meshes s ! d)"
  proof
    fix d assume "d \<in> set (donutMeshes s)"
    from text_material_unshared [OF w assms(2) this]
    have "?tk \<noteq> mesh_material (meshes s ! d)"
      by (rule not_sym)
    then show "materials ?s1 ! mesh_material (meshes s ! d) =
        materials s ! mesh_material (meshes s ! d)"
      by simp
  qed
  have text_part: "\<exists>s'. step (TextColorChanged c) s = Inr s'
          \<and> meshes s' = meshes s \<and> donutMeshes s' = donutMeshes s \<and> textMesh s' = Some tm
          \<and> length (materials s') = length (materials s)
          \<and> materials s' ! ?tk = (materials s ! ?tk)\<lparr>color := c\<rparr>
          \<and> (\<forall>k. k \<noteq> ?tk \<longrightarrow> materials s' ! k = materials s ! k)
          \<and> (\<forall>d\<in>set (donutMeshes s).
                materials s' ! mesh_material (meshes s ! d) =
                materials s ! mesh_material (meshes s ! d))"
    using t1 t2 t3 t4 assms(2) by (intro exI [of _ ?s1]) simp
  \<comment> \<open>the global donut colour control\<close>
  let ?s0 = "s\<lparr>config := (config s)\<lparr>donutColor := c\<rparr>\<rparr>"
  let ?s2 = "onDonutColorChange c ?s0"
  have w0: "wellformed ?s0"
    using w by (simp add: wellformed_config)
  have d1: "step (DonutColorChanged c) s = Inr ?s2"
    using dc by simp
  have nth: "materials ?s2 ! k =
      (if k \<in> (\<lambda>d. mesh_material (meshes s ! d)) ` set (donutMeshes s)
       then (materials s ! k)\<lparr>color := c\<rparr> else materials s ! k)"
    if "k < length (materials s)" for k
    using onDonutColorChange_nth [OF w0, of k c] that by simp
  have d2: "\<forall>d\<in>set (donutMeshes s).
      materials ?s2 ! mesh_material (meshes s ! d) =
      (materials s ! mesh_material (meshes s ! d))\<lparr>color := c\<rparr>"
  proof
    fix d assume d: "d \<in> set (donutMeshes s)"
    with w have "d < length (meshes s)"
      by (auto simp: wf_defs list_all_iff)
    from wellformed_material_valid(1) [OF w this] d
    show "materials ?s2 ! mesh_material (meshes s ! d) =
        (materials s ! mesh_material (meshes s ! d))\<lparr>color := c\<rparr>"
      by (simp add: nth)
  qed
  have d3: "\<forall>k. k < length (materials s) \<longrightarrow>
      k \<notin> (\<lambda>d. mesh_material (meshes s ! d)) ` set (donutMeshes s) \<longrightarrow>
      materials ?s2 ! k = materials s ! k"
    by (simp add: nth)
  have "?tk \<notin> (\<lambda>d. mesh_material (meshes s ! d)) ` set (donutMeshes s)"
  proof
    assume "?tk \<in> (\<lambda>d. mesh_material (meshes s ! d)) ` set (donutMeshes s)"
    then obtain d where d: "d \<in> set (donutMeshes s)" "?tk = mesh_material (meshes s ! d)"
      by blast
    from text_material_unshared [OF w assms(2) d(1)] d(2) show False
      by simp
  qed
  with tk d3 have d4: "materials ?s2 ! ?tk = materials s ! ?tk"
    by blast
  have donut_part: "\<exists>s'. step (DonutColorChanged c) s = Inr s'
          \<and> meshes s' = meshes s \<and> donutMeshes s' = donutMeshes s \<and> textMesh s' = Some tm
          \<and> length (materials s') = length (materials s)
          \<and> (\<forall>d\<in>set (donutMeshes s).
                materials s' ! mesh_material (meshes s ! d) =
                (materials s ! mesh_material (meshes s ! d))\<lparr>color := c\<rparr>)
          \<and> (\<forall>k. k < length (materials s) \<longrightarrow>
                k \<notin> (\<lambda>d. mesh_material (meshes s ! d)) ` set (donutMeshes s) \<longrightarrow>
                materials s' ! k = materials s ! k)
          \<and> materials s' ! ?tk = materials s ! ?tk"
    using d1 d2 d3 d4 assms(2)
    by (intro exI [of _ ?s2]) (simp add: onDonutColorChange_frame)
  from n text_part donut_part show ?thesis
    by blast
qed

theorem color_pickers_witness:
  "\<exists>s s1 s2. run [FontLoaded example_font example_random 0] (boot TextureLoaded example_window) = Inr s
     \<and> length (donutMeshes s) = 100
     \<and> step (TextColorChanged 0x0000ff) s = Inr s1
     \<and> color (materials s1 ! mesh_material (meshes s ! 0)) = 0x0000ff
     \<and> materials s1 ! mesh_material (meshes s ! 100) = materials s ! mesh_material (meshes s ! 100)
     \<and> step (DonutColorChanged 0x00ff00) s = Inr s2
     \<and> color (materials s2 ! mesh_material (meshes s ! 100)) = 0x00ff00
     \<and> materials s2 ! mesh_material (meshes s ! 0) = materials s ! mesh_material (meshes s ! 0)"
proof -
  from first_build [of example_font example_random 0 TextureLoaded example_window]
  obtain s where s: "step (FontLoaded example_font example_random 0)
      (boot TextureLoaded example_window) = Inr s" "textMesh s = Some 0"
      "donutMeshes s = [1..<101]"
    by blast
  have r: "run [FontLoaded example_font example_random 0] (boot TextureLoaded example_window) =
      Inr s"
    by (simp only: run.simps s(1) sum.case)
  have d: "100 \<in> set (donutMeshes s)"
    by (simp add: s(3))
  from color_pickers [OF r s(2), of "0x0000ff"] obtain s1 where
    s1: "step (TextColorChanged 0x0000ff) s = Inr s1"
      "materials s1 ! mesh_material (meshes s ! 0) =
         (materials s ! mesh_material (meshes s ! 0))\<lparr>color := 0x0000ff\<rparr>"
      "\<forall>d\<in>set (donutMeshes s). materials s1 ! mesh_material (meshes s ! d) =
         materials s ! mesh_material (meshes s ! d)"
      and n: "length (donutMeshes s) = 100"
    by blast
  from color_pickers [OF r s(2), of "0x00ff00"] obtain s2 where
    s2: "step (DonutColorChanged 0x00ff00) s = Inr s2"
      "\<forall>d\<in>set (donutMeshes s). materials s2 ! mesh_material (meshes s ! d) =
         (materials s ! mesh_material (meshes s ! d))\<lparr>color := 0x00ff00\<rparr>"
      "materials s2 ! mesh_material (meshes s ! 0) = materials s ! mesh_material (meshes s ! 0)"
    by blast
  from s1(3) d have a: "materials s1 ! mesh_material (meshes s ! 100) =
      materials s ! mesh_material (meshes s ! 100)"
    by blast
  from s2(2) d have b: "materials s2 ! mesh_material (meshes s ! 100) =
      (materials s ! mesh_material (meshes s ! 100))\<lparr>color := 0x00ff00\<rparr>"
    by blast
  show ?thesis
    using r n s1(1) s2(1) s2(3) a
    by (intro exI [of _ s] exI [of _ s1] exI [of _ s2]) (simp add: s1(2) b)
qed

section \<open>The text object\<close>

text \<open>
  C8. In a run of the script, once the content exists, the scene holds exactly one text
  object, the text mesh, and this stays so after every event, with the same mesh. A
  change of the text content disposes the geometry the mesh had and gives the same mesh
  a newly built geometry; a change of the text colour updates the colour of the mesh's
  material and builds no geometry.
\<close>

theorem single_text_object:
  assumes "run es (boot outcome win) = Inr s" "textMesh s = Some tm"
  shows "text_objects s = [tm]
    \<and> (\<forall>e s'. step e s = Inr s' \<longrightarrow> textMesh s' = Some tm \<and> text_objects s' = [tm])
    \<and> (\<exists>s' fnt. loadedFont s = Some fnt \<and> step (TextValueChanged t) s = Inr s'
          \<and> geometries s' =
              (geometries s)[mesh_geometry (meshes s ! tm) :=
                 (geometries s ! mesh_geometry (meshes s ! tm))\<lparr>gdisposed := True\<rparr>] @
              [createTextGeometry t fnt]
          \<and> gdisposed (geometries s' ! mesh_geometry (meshes s ! tm))
          \<and> meshes s' = (meshes s)[tm := (meshes s ! tm)\<lparr>mesh_geometry := length (geometries s)\<rparr>]
          \<and> mesh_geometry (meshes s' ! tm) = length (geometries s)
          \<and> geometries s' ! mesh_geometry (meshes s' ! tm) = createTextGeometry t fnt
          \<and> mesh_material (meshes s' ! tm) = mesh_material (meshes s ! tm)
          \<and> materials s' = materials s \<and> scene_children s' = scene_children s)
    \<and> (\<exists>s'. step (TextColorChanged c) s = Inr s'
          \<and> geometries s' = geometries s \<and> meshes s' = meshes s
          \<and> scene_children s' = scene_children s
          \<and> length (materials s') = length (materials s)
          \<and> color (materials s' ! mesh_material (meshes s ! tm)) = c)"
proof -
  from program_run [of es outcome win] assms(1) have inv: "program_invariant s"
    by auto
  with assms(2) have w: "wellformed s" and one: "text_objects s = [tm]"
    and np: "\<not> font_request_pending s"
    and tc: "has_controller TextColorController s"
    and tv: "has_controller TextValueController s"
    by (simp_all add: program_invariant_def)
  from inv assms(2) obtain fnt where fnt: "loadedFont s = Some fnt"
    by (auto simp: program_invariant_def)
  from w assms(2) have tm: "tm < length (meshes s)"
    by (simp add: wf_defs)
  note tg = wellformed_material_valid(2) [OF w tm]
  note tk = wellformed_material_valid(1) [OF w tm]
  have every: "textMesh s' = Some tm \<and> text_objects s' = [tm]" if s': "step e s = Inr s'" for e s'
  proof -
    from program_invariant_step [OF inv, of e] s' have inv': "program_invariant s'"
      by auto
    have "textMesh s' = Some tm"
    proof (cases "rebuilds e")
      case True
      then obtain f r dt where "e = FontLoaded f r dt"
        by (cases e) simp_all
      with s' np assms(2) show ?thesis by simp
    next
      case False
      from step_frame(2) [OF False s'] assms(2) show ?thesis by simp
    qed
    with inv' show ?thesis
      by (simp add: program_invariant_def)
  qed
  \<comment> \<open>a change of the text content\<close>
  let ?s0 = "s\<lparr>config := (config s)\<lparr>textValue := t\<rparr>\<rparr>"
  let ?s1 = "onTextValueChange t ?s0"
  have v1: "step (TextValueChanged t) s = Inr ?s1"
    using tv by simp
  have eq: "?s1 = ?s0\<lparr>geometries := (geometries s)[mesh_geometry (meshes s ! tm) :=
          (geometries s ! mesh_geometry (meshes s ! tm))\<lparr>gdisposed := True\<rparr>] @
          [createTextGeometry t fnt],
      meshes := (meshes s)[tm := (meshes s ! tm)\<lparr>mesh_geometry := length (geometries s)\<rparr>]\<rparr>"
    using onTextValueChange_Some [of ?s0 tm fnt t] assms(2) fnt by simp
  have content: "\<exists>s' fnt. loadedFont s = Some fnt \<and> step (TextValueChanged t) s = Inr s'
          \<and> geometries s' =
              (geometries s)[mesh_geometry (meshes s ! tm) :=
                 (geometries s ! mesh_geometry (meshes s ! tm))\<lparr>gdisposed := True\<rparr>] @
              [createTextGeometry t fnt]
          \<and> gdisposed (geometries s' ! mesh_geometry (meshes s ! tm))
          \<and> meshes s' = (meshes s)[tm := (meshes s ! tm)\<lparr>mesh_geometry := length (geometries s)\<rparr>]
          \<and> mesh_geometry (meshes s' ! tm) = length (geometries s)
          \<and> geometries s' ! mesh_geometry (meshes s' ! tm) = createTextGeometry t fnt
          \<and> mesh_material (meshes s' ! tm) = mesh_material (meshes s ! tm)
          \<and> materials s' = materials s \<and> scene_children s' = scene_children s"
    using v1 fnt tm tg
    by (intro exI [of _ ?s1] exI [of _ fnt]) (simp add: eq nth_append)
  \<comment> \<open>a change of the text colour\<close>
  let ?tk = "mesh_material (meshes s ! tm)"
  let ?s2 = "s\<lparr>config := (config s)\<lparr>textColor := c\<rparr>,
      materials := (materials s)[?tk := (materials s ! ?tk)\<lparr>color := c\<rparr>]\<rparr>"
  have c1: "step (TextColorChanged c) s = Inr ?s2"
    using tc assms(2) by (simp add: onTextColorChange_def Let_def)
  have colour: "\<exists>s'. step (TextColorChanged c) s = Inr s'
          \<and> geometries s' = geometries s \<and> meshes s' = meshes s
          \<and> scene_children s' = scene_children s
          \<and> length (materials s') = length (materials s)
          \<and> color (materials s' ! ?tk) = c"
    using c1 tk by (intro exI [of _ ?s2]) simp
  from one every content colour show ?thesis
    by blast
qed

theorem single_text_object_witness:
  "\<exists>s s'. run [FontLoaded example_font example_random 0] (boot TextureLoaded example_window) = Inr s
     \<and> text_objects s = [0]
     \<and> step (TextValueChanged (js_literal ''Hi'')) s = Inr s'
     \<and> textMesh s' = Some 0 \<and> text_objects s' = [0]
     \<and> gdisposed (geometries s' ! mesh_geometry (meshes s ! 0))
     \<and> mesh_geometry (meshes s' ! 0) = 2
     \<and> geometries s' ! 2 = createTextGeometry (js_literal ''Hi'') example_font"
proof -
  from first_build [of example_font example_random 0 TextureLoaded example_window]
  obtain s where s: "step (FontLoaded example_font example_random 0)
      (boot TextureLoaded example_window) = Inr s" "textMesh s = Some 0"
      "loadedFont s = Some example_font"
      "geometries s =
        [createTextGeometry (js_literal ''Hello :)'') example_font,
         \<lparr>gdata = TorusGeometry 0.3 0.2 16 32, gdisposed = False\<rparr>]"
    by blast
  have r: "run [FontLoaded example_font example_random 0] (boot TextureLoaded example_window) =
      Inr s"
    by (simp only: run.simps s(1) sum.case)
  note t = single_text_object [OF r s(2), of "js_literal ''Hi''"]
  from t have one: "text_objects s = [0]"
    by blast
  from t obtain s' fnt where
    s': "loadedFont s = Some fnt" "step (TextValueChanged (js_literal ''Hi'')) s = Inr s'"
      "gdisposed (geometries s' ! mesh_geometry (meshes s ! 0))"
      "mesh_geometry (meshes s' ! 0) = length (geometries s)"
      "geometries s' ! mesh_geometry (meshes s' ! 0) = createTextGeometry (js_literal ''Hi'') fnt"
    by blast
  from t s'(2) have after: "textMesh s' = Some 0 \<and> text_objects s' = [0]"
    by blast
  from s'(1) s(3) have f: "fnt = example_font"
    by simp
  have l: "length (geometries s) = 2"
    by (simp add: s(4))
  show ?thesis
    using r one s'(2,3) after s'(4,5)
    by (intro exI [of _ s] exI [of _ s']) (simp add: f l)
qed

section \<open>Construction of the text geometry\<close>

lemma createTextGeometry_eq:
  "createTextGeometry text fnt =
     \<lparr>gdata = TextGeometry (if trim text = [] then js_literal ''...'' else text) textOptions
        (center (glyph_vertices fnt (if trim text = [] then js_literal ''...'' else text)
           textOptions)),
      gdisposed = False\<rparr>"
  by (simp add: createTextGeometry_def geometryText_def placeholder_def)

lemma trim_placeholder: "trim (js_literal ''...'') = js_literal ''...''"
  by (simp add: trim_def js_literal_def isWhiteSpace_def)

lemma length_center: "length (center vs) = length vs"
  by (simp add: center_def translate_def)

lemma textValue_step:
  assumes "program_invariant s" "textMesh s = Some tm"
  shows "\<exists>s' f. loadedFont s = Some f \<and> step (TextValueChanged t) s = Inr s'
    \<and> textMesh s' = Some tm
    \<and> geometries s' ! mesh_geometry (meshes s' ! tm) = createTextGeometry t f"
proof -
  from assms have w: "wellformed s" and tv: "has_controller TextValueController s"
    by (simp_all add: program_invariant_def)
  from assms obtain f where f: "loadedFont s = Some f"
    by (auto simp: program_invariant_def)
  from w assms(2) have tm: "tm < length (meshes s)"
    by (simp add: wf_defs)
  note tg = wellformed_material_valid(2) [OF w tm]
  let ?s0 = "s\<lparr>config := (config s)\<lparr>textValue := t\<rparr>\<rparr>"
  let ?s1 = "onTextValueChange t ?s0"
  have v1: "step (TextValueChanged t) s = Inr ?s1"
    using tv by simp
  have eq: "?s1 = ?s0\<lparr>geometries := (geometries s)[mesh_geometry (meshes s ! tm) :=
          (geometries s ! mesh_geometry (meshes s ! tm))\<lparr>gdisposed := True\<rparr>] @
          [createTextGeometry t f],
      meshes := (meshes s)[tm := (meshes s ! tm)\<lparr>mesh_geometry := length (geometries s)\<rparr>]\<rparr>"
    using onTextValueChange_Some [of ?s0 tm f t] assms(2) f by simp
  show ?thesis
    using v1 f tm tg assms(2)
    by (intro exI [of _ ?s1] exI [of _ f]) (simp add: eq nth_append)
qed

text \<open>
  C6. For every text input, the empty string included, \<^verbatim>\<open>createTextGeometry\<close>
  returns the geometry that the library builds, under the options of lines 58--66, for
  the input itself or, when the input is empty (or blank), for the placeholder
  \<^verbatim>\<open>...\<close>: it has every vertex the library produced for that text, translated so
  that the bounding box is centred at the origin, and it is not disposed. In
  particular the empty input gives the geometry of the placeholder text. The function
  has no failing branch, and where the script calls it on a changed text the handler
  returns normally with that geometry on the text mesh.
\<close>

theorem createTextGeometry_centered:
  "createTextGeometry text fnt =
     \<lparr>gdata = TextGeometry (if trim text = [] then js_literal ''...'' else text) textOptions
        (center (glyph_vertices fnt (if trim text = [] then js_literal ''...'' else text)
           textOptions)),
      gdisposed = False\<rparr>
   \<and> createTextGeometry [] fnt = createTextGeometry (js_literal ''...'') fnt
   \<and> geometry_text (gdata (createTextGeometry [] fnt)) = js_literal ''...''
   \<and> geometry_positions (gdata (createTextGeometry [] fnt)) =
       center (glyph_vertices fnt (js_literal ''...'') textOptions)
   \<and> isTextGeometry (gdata (createTextGeometry text fnt))
   \<and> \<not> gdisposed (createTextGeometry text fnt)
   \<and> length (geometry_positions (gdata (createTextGeometry text fnt))) =
       length (glyph_vertices fnt (if trim text = [] then js_literal ''...'' else text)
         textOptions)
   \<and> boundingBox_center (geometry_positions (gdata (createTextGeometry text fnt))) =
       Vector3 0 0 0
   \<and> (\<forall>es s tm. run es (boot outcome win) = Inr s \<longrightarrow> textMesh s = Some tm \<longrightarrow>
         (\<exists>s' f. loadedFont s = Some f \<and> step (TextValueChanged text) s = Inr s'
            \<and> textMesh s' = Some tm
            \<and> geometries s' ! mesh_geometry (meshes s' ! tm) = createTextGeometry text f))"
proof -
  have run: "\<exists>s' f. loadedFont s = Some f \<and> step (TextValueChanged text) s = Inr s'
            \<and> textMesh s' = Some tm
            \<and> geometries s' ! mesh_geometry (meshes s' ! tm) = createTextGeometry text f"
    if "run es (boot outcome win) = Inr s" "textMesh s = Some tm" for es s tm
  proof -
    from program_run [of es outcome win] that(1) have "program_invariant s"
      by auto
    from textValue_step [OF this that(2)] show ?thesis .
  qed
  have e: "createTextGeometry [] fnt = createTextGeometry (js_literal ''...'') fnt"
    by (simp add: createTextGeometry_eq trim_placeholder) (simp add: trim_def js_literal_def)
  have rest: "createTextGeometry text fnt =
     \<lparr>gdata = TextGeometry (if trim text = [] then js_literal ''...'' else text) textOptions
        (center (glyph_vertices fnt (if trim text = [] then js_literal ''...'' else text)
           textOptions)),
      gdisposed = False\<rparr>
   \<and> geometry_text (gdata (createTextGeometry [] fnt)) = js_literal ''...''
   \<and> geometry_positions (gdata (createTextGeometry [] fnt)) =
       center (glyph_vertices fnt (js_literal ''...'') textOptions)
   \<and> isTextGeometry (gdata (createTextGeometry text fnt))
   \<and> \<not> gdisposed (createTextGeometry text fnt)
   \<and> length (geometry_positions (gdata (createTextGeometry text fnt))) =
       length (glyph_vertices fnt (if trim text = [] then js_literal ''...'' else text)
         textOptions)
   \<and> boundingBox_center (geometry_positions (gdata (createTextGeometry text fnt))) =
       Vector3 0 0 0"
    by (simp add: createTextGeometry_eq boundingBox_center_center length_center)
      (simp add: trim_def)
  from rest e run show ?thesis
    by blast
qed

theorem createTextGeometry_centered_witness:
  "geometry_text (gdata (createTextGeometry [] example_font)) = js_literal ''...''
   \<and> createTextGeometry [] example_font = createTextGeometry (js_literal ''...'') example_font
   \<and> geometry_text (gdata (createTextGeometry (js_literal ''Hi'') example_font)) = js_literal ''Hi''
   \<and> geometry_positions (gdata (createTextGeometry (js_literal ''Hi'') example_font)) =
       [Vector3 (- (33 / 2)) 0 0, Vector3 (33 / 2) 0 0]
   \<and> (\<exists>s s'. step (FontLoaded example_font example_random 0) (boot TextureLoaded example_window) =
          Inr s
        \<and> step (TextValueChanged []) s = Inr s' \<and> textMesh s' = Some 0
        \<and> geometries s' ! mesh_geometry (meshes s' ! 0) =
            createTextGeometry (js_literal ''...'') example_font)"
proof -
  note t0 = createTextGeometry_centered [of "[]" example_font TextureLoaded example_window]
  note t1 = createTextGeometry_centered [of "js_literal ''Hi''" example_font TextureLoaded
      example_window]
  from first_build [of example_font example_random 0 TextureLoaded example_window]
  obtain s where s: "step (FontLoaded example_font example_random 0)
      (boot TextureLoaded example_window) = Inr s" "textMesh s = Some 0"
      "loadedFont s = Some example_font"
    by blast
  have r: "run [FontLoaded example_font example_random 0] (boot TextureLoaded example_window) =
      Inr s"
    by (simp only: run.simps s(1) sum.case)
  from t0 r s(2) obtain s' f where
    s': "loadedFont s = Some f" "step (TextValueChanged []) s = Inr s'" "textMesh s' = Some 0"
      "geometries s' ! mesh_geometry (meshes s' ! 0) = createTextGeometry [] f"
    by blast
  from s'(1) s(3) have f: "f = example_font"
    by simp
  from t0 have e: "createTextGeometry [] example_font =
      createTextGeometry (js_literal ''...'') example_font"
    and p: "geometry_text (gdata (createTextGeometry [] example_font)) = js_literal ''...''"
    by blast+
  have nb: "trim (js_literal ''Hi'') \<noteq> []"
    by (simp add: trim_def js_literal_def isWhiteSpace_def)
  from t1 have "createTextGeometry (js_literal ''Hi'') example_font =
     \<lparr>gdata = TextGeometry (if trim (js_literal ''Hi'') = [] then js_literal ''...''
                             else js_literal ''Hi'') textOptions
        (center (glyph_vertices example_font
           (if trim (js_literal ''Hi'') = [] then js_literal ''...'' else js_literal ''Hi'')
           textOptions)),
      gdisposed = False\<rparr>"
    by blast
  then have h: "createTextGeometry (js_literal ''Hi'') example_font =
     \<lparr>gdata = TextGeometry (js_literal ''Hi'') textOptions
        (center (glyph_vertices example_font (js_literal ''Hi'') textOptions)),
      gdisposed = False\<rparr>"
    using nb by simp
  have c: "center (glyph_vertices example_font (js_literal ''Hi'') textOptions) =
      [Vector3 (- (33 / 2)) 0 0, Vector3 (33 / 2) 0 0]"
    by (simp add: example_font_def js_literal_def textOptions_def center_def translate_def
        negate_def boundingBox_center_def)
  have "\<exists>s s'. step (FontLoaded example_font example_random 0)
          (boot TextureLoaded example_window) = Inr s
        \<and> step (TextValueChanged []) s = Inr s' \<and> textMesh s' = Some 0
        \<and> geometries s' ! mesh_geometry (meshes s' ! 0) =
            createTextGeometry (js_literal ''...'') example_font"
    using s(1) s'(2,3,4) by (intro exI [of _ s] exI [of _ s']) (simp add: f e)
  with p e show ?thesis
    by (simp add: h c)
qed

text \<open>
  C10. The text that goes into the geometry is the placeholder exactly when the input
  consists of white space only, which is exactly when it trims to the empty string;
  any other input goes into the geometry as it is. A white-space-only input therefore
  yields the same geometry as the empty string.
\<close>

theorem createTextGeometry_whitespace:
  "createTextGeometry text fnt =
     \<lparr>gdata = TextGeometry
        (if (\<forall>c\<in>set text. isWhiteSpace c) then js_literal ''...'' else text) textOptions
        (center (glyph_vertices fnt
           (if (\<forall>c\<in>set text. isWhiteSpace c) then js_literal ''...'' else text) textOptions)),
      gdisposed = False\<rparr>
   \<and> geometryText text = (if (\<forall>c\<in>set text. isWhiteSpace c) then js_literal ''...'' else text)
   \<and> ((\<forall>c\<in>set text. isWhiteSpace c) \<longleftrightarrow> trim text = [])
   \<and> ((\<forall>c\<in>set text. isWhiteSpace c) \<longrightarrow>
        createTextGeometry text fnt = createTextGeometry [] fnt)
   \<and> (\<not> (\<forall>c\<in>set text. isWhiteSpace c) \<longrightarrow>
        geometry_text (gdata (createTextGeometry text fnt)) = text
        \<and> geometry_positions (gdata (createTextGeometry text fnt)) =
            center (glyph_vertices fnt text textOptions))"
proof -
  have blank: "(\<forall>c\<in>set text. isWhiteSpace c) \<longleftrightarrow> trim text = []"
    by (simp add: trim_empty_iff)
  have used: "geometryText text =
      (if (\<forall>c\<in>set text. isWhiteSpace c) then js_literal ''...'' else text)"
    by (simp add: geometryText_def placeholder_def blank)
  have empty: "geometryText [] = js_literal ''...''"
    by (simp add: geometryText_def placeholder_def trim_def)
  have built: "createTextGeometry text fnt =
     \<lparr>gdata = TextGeometry
        (if (\<forall>c\<in>set text. isWhiteSpace c) then js_literal ''...'' else text) textOptions
        (center (glyph_vertices fnt
           (if (\<forall>c\<in>set text. isWhiteSpace c) then js_literal ''...'' else text) textOptions)),
      gdisposed = False\<rparr>"
    unfolding createTextGeometry_def used ..
  have same: "createTextGeometry text fnt = createTextGeometry [] fnt"
    if "\<forall>c\<in>set text. isWhiteSpace c"
    using that unfolding createTextGeometry_def used empty by simp
  have other: "geometry_text (gdata (createTextGeometry text fnt)) = text
        \<and> geometry_positions (gdata (createTextGeometry text fnt)) =
            center (glyph_vertices fnt text textOptions)"
    if "\<not> (\<forall>c\<in>set text. isWhiteSpace c)"
    unfolding built if_not_P [OF that] by simp
  from built used blank same other show ?thesis
    by blast
qed

theorem createTextGeometry_whitespace_witness:
  "trim [0x20, 0x09, 0x3000, 0x0A] = []
   \<and> geometry_text (gdata (createTextGeometry [0x20, 0x09, 0x3000, 0x0A] example_font)) =
       js_literal ''...''
   \<and> createTextGeometry [0x20, 0x09, 0x3000, 0x0A] example_font =
       createTextGeometry [] example_font
   \<and> geometry_text (gdata (createTextGeometry (js_literal '' Hi '') example_font)) =
       js_literal '' Hi ''
   \<and> geometry_positions (gdata (createTextGeometry (js_literal '' Hi '') example_font)) =
       center (glyph_vertices example_font (js_literal '' Hi '') textOptions)
   \<and> createTextGeometry (js_literal '' Hi '') example_font \<noteq> createTextGeometry [] example_font"
proof -
  have ws: "\<forall>c\<in>set [0x20, 0x09, 0x3000, 0x0A]. isWhiteSpace c"
    by (simp add: isWhiteSpace_def)
  have nws: "\<not> (\<forall>c\<in>set (js_literal '' Hi ''). isWhiteSpace c)"
    by (simp add: isWhiteSpace_def js_literal_def)
  note a = createTextGeometry_whitespace [of "[0x20, 0x09, 0x3000, 0x0A]" example_font]
  note b = createTextGeometry_whitespace [of "js_literal '' Hi ''" example_font]
  note c = createTextGeometry_whitespace [of "[]" example_font]
  from a ws have 1: "trim [0x20, 0x09, 0x3000, 0x0A] = []"
    and 3: "createTextGeometry [0x20, 0x09, 0x3000, 0x0A] example_font =
       createTextGeometry [] example_font"
    by blast+
  from c have 0: "geometry_text (gdata (createTextGeometry [] example_font)) = js_literal ''...''"
    by simp
  from b nws have 4: "geometry_text (gdata (createTextGeometry (js_literal '' Hi '') example_font)) =
       js_literal '' Hi ''"
    and 5: "geometry_positions (gdata (createTextGeometry (js_literal '' Hi '') example_font)) =
       center (glyph_vertices example_font (js_literal '' Hi '') textOptions)"
    by blast+
  have "js_literal '' Hi '' \<noteq> js_literal ''...''"
    by (simp add: js_literal_def)
  with 0 4 have 6: "createTextGeometry (js_literal '' Hi '') example_font \<noteq>
      createTextGeometry [] example_font"
    by auto
  from 1 3 4 5 6 0 show ?thesis
    by simp
qed

section \<open>Rebuilds and resources\<close>





lemma rebuild_keeps_old_text_mesh:
  assumes "program_invariant s" "textMesh s = Some tm"
  shows "text_objects (setupSceneContent fnt r s) = [tm, length (meshes s)]"
proof -
  from assms have w: "wellformed s" and one: "text_objects s = [tm]"
    by (simp_all add: program_invariant_def)
  from w assms(2) have "tm \<notin> set (donutMeshes s)"
    by (simp add: wf_defs)
  with text_objects_setupSceneContent [OF w, of fnt r] one show ?thesis
    by simp
qed





end
